theory Spec2Isabelle
  imports Main "HOL-Library.Extended_Nat"
begin

section \<open>Data model of IngressSyncTraversalWorker\<close>

text \<open>
  Vertex handles (\<open>vertex_t\<close>) are local indices and global ids (\<open>vid_t\<close>) are
  numbers. The value type of the traversal kernel stays a type parameter \<open>'v\<close>.
\<close>

type_synonym vertex_t = nat
type_synonym vid_t = nat

text \<open>
  \<open>DependencyData<vid_t, value_t>\<close>: the delta of a vertex, a value together with
  the gid of the neighbour that produced it. The source reads the field \<open>value\<close>
  (here \<open>delta_value\<close>); \<open>DeltaParentGid\<close> reads \<open>parent_gid\<close>.
\<close>

record 'v DependencyData =
  parent_gid :: vid_t
  delta_value :: 'v

text \<open>
  The part of \<open>fragment_t\<close> that the worker calls. The fragment class is not part of
  the worker's file, so each member function the worker uses is a field.
\<close>

record fragment_t =
  InnerVertices :: "vertex_t list"
  OuterVertices :: "vertex_t list"
  Vertex2Gid :: "vertex_t \<Rightarrow> vid_t"
  Gid2Vertex :: "vid_t \<Rightarrow> vertex_t option"
  IsInnerGid :: "vid_t \<Rightarrow> bool"
  GetOutgoingAdjList :: "vertex_t \<Rightarrow> vertex_t list"

definition Vertices :: "fragment_t \<Rightarrow> vertex_t list" where
  "Vertices frag = InnerVertices frag @ OuterVertices frag"

text \<open>
  The state containers of the application object that the worker addresses: the value
  and delta arrays and the two modified sets of the application (the member names end in
  an underscore in the source). A \<open>DenseVertexSet\<close> is a set of vertex handles.
\<close>

record 'v app_state =
  values_arr :: "vertex_t \<Rightarrow> 'v"
  deltas_arr :: "vertex_t \<Rightarrow> 'v DependencyData"
  app_curr_modified :: "vertex_t set"
  app_next_modified :: "vertex_t set"

text \<open>
  The member functions of the application (the traversal kernel) that the worker calls.
  The kernel is a template parameter of the worker, so it is a parameter here.
  \<open>Compute\<close> receives the fragment, the vertex, the value and the delta it is called
  with, the delta array and the vertex set it may insert into; it returns the delta array
  and the set. \<open>Reset\<close> is \<open>delta_t::Reset\<close>.
\<close>

record 'v kernel =
  GetIdentityElement :: 'v
  Init :: "fragment_t \<Rightarrow> 'v app_state"
  AccumulateTo :: "vertex_t \<Rightarrow> 'v DependencyData \<Rightarrow> (vertex_t \<Rightarrow> 'v DependencyData)
                    \<Rightarrow> bool \<times> (vertex_t \<Rightarrow> 'v DependencyData)"
  CombineValueDelta :: "'v \<Rightarrow> 'v DependencyData \<Rightarrow> bool \<times> 'v \<times> 'v DependencyData"
  Compute :: "fragment_t \<Rightarrow> vertex_t \<Rightarrow> 'v \<Rightarrow> 'v DependencyData
               \<Rightarrow> (vertex_t \<Rightarrow> 'v DependencyData) \<Rightarrow> vertex_t set
               \<Rightarrow> (vertex_t \<Rightarrow> 'v DependencyData) \<times> vertex_t set"
  Reset :: "'v DependencyData \<Rightarrow> 'v \<Rightarrow> 'v DependencyData"

definition DeltaParentGid :: "'v app_state \<Rightarrow> vertex_t \<Rightarrow> vid_t" where
  "DeltaParentGid st v = parent_gid (deltas_arr st v)"

text \<open>
  Every call the worker makes on the message manager, the channels, the logger and MPI
  is recorded, in order, in a trace. The payload of \<open>SyncStateOnOuterVertex\<close> is
  \<open>None\<close> for \<open>grape::EmptyType\<close>. Calls of the kernel are recorded as well.
\<close>

datatype 'v event =
    MPI_Barrier
  | Start
  | StartARound
  | InitChannels
  | FinishARound
  | ForceContinue
  | ToTerminate bool
  | SyncStateOnOuterVertex vertex_t "'v DependencyData option"
  | LogInfo string
  | LogError string
  | CallInit
  | CallAccumulateTo vertex_t "'v DependencyData"
  | CallCombineValueDelta vertex_t
  | CallCompute vertex_t 'v "'v DependencyData"
  | CommunicatorSum nat

text \<open>
  The worker: the application state, the current fragment and the trace.
\<close>

record 'v worker =
  app :: "'v app_state"
  fragment :: fragment_t
  trace :: "'v event list"

text \<open>
  \<open>IncFragmentBuilder\<close> after \<open>Init(FLAGS_efile_update)\<close>: the deleted edges as
  gid pairs, and the fragment that \<open>Build()\<close> returns.
\<close>

record inc_fragment_builder =
  GetDeletedEdgesGid :: "(vid_t \<times> vid_t) list"
  Build :: fragment_t

text \<open>
  What the worker reads from its surroundings: the flags, its rank, the coordinator's
  rank and the builder constructed from the current fragment.
\<close>

record config =
  FLAGS_efile_update :: string
  FLAGS_cilk :: bool
  worker_id :: nat
  kCoordinatorRank :: nat
  IncFragmentBuilder :: "fragment_t \<Rightarrow> inc_fragment_builder"

datatype error = CheckFailed | OutOfRounds

text \<open>
  What the message manager hands to the worker in one round: the messages that
  \<open>ParallelProcess\<close> dispatches (vertex handle and payload; the reset loop receives
  \<open>EmptyType\<close> and reads the vertex only) and the verdict of \<open>ToTerminate\<close>.
\<close>

record 'v round_input =
  inbound :: "(vertex_t \<times> 'v DependencyData) list"
  terminate :: bool

definition emit :: "'v event list \<Rightarrow> 'v worker \<Rightarrow> 'v worker" where
  "emit es w = w\<lparr>trace := trace w @ es\<rparr>"

definition coordinator_log :: "config \<Rightarrow> string \<Rightarrow> 'v event list" where
  "coordinator_log cfg s = (if worker_id cfg = kCoordinatorRank cfg then [LogInfo s] else [])"

section \<open>deltaCompute: seeding\<close>

text \<open>
  Lines 91-120. \<open>local_gid_set\<close> holds the gid of every vertex of the fragment. For each
  deleted edge whose source gid is in the set and whose target gid is inner, both
  \<open>CHECK\<close>s must succeed; then the target vertex enters \<open>curr_modified\<close> when its
  recorded parent is the source.
\<close>

definition local_gid_set :: "fragment_t \<Rightarrow> vid_t set" where
  "local_gid_set frag = set (map (Vertex2Gid frag) (Vertices frag))"

fun seed :: "fragment_t \<Rightarrow> 'v app_state \<Rightarrow> (vid_t \<times> vid_t) list \<Rightarrow> vertex_t set
             \<Rightarrow> error + vertex_t set" where
  "seed frag st [] curr_modified = Inr curr_modified"
| "seed frag st ((u_gid, v_gid) # deleted_edges) curr_modified =
     (if u_gid \<in> local_gid_set frag \<and> IsInnerGid frag v_gid then
        (case Gid2Vertex frag u_gid of
           None \<Rightarrow> Inl CheckFailed
         | Some u \<Rightarrow>
            (case Gid2Vertex frag v_gid of
               None \<Rightarrow> Inl CheckFailed
             | Some v \<Rightarrow>
                 seed frag st deleted_edges
                   (if DeltaParentGid st v = u_gid then insert v curr_modified
                    else curr_modified)))
      else seed frag st deleted_edges curr_modified)"

section \<open>deltaCompute: the reset loop\<close>

text \<open>
  The local variables of \<open>deltaCompute\<close> that the reset loop updates, with the worker.
\<close>

record 'v reset_state =
  rw :: "'v worker"
  curr_modified :: "vertex_t set"
  next_modified :: "vertex_t set"
  reset_vertices :: "vertex_t set"

text \<open>
  \<open>ForEachSimple(set, range, f)\<close> and \<open>ForEach(set, range, f)\<close> call \<open>f\<close> on the
  vertices of the range that are in the set. The threads are not modelled: the calls
  are made one after the other, in the order of the range.
\<close>

definition for_each :: "vertex_t set \<Rightarrow> vertex_t list \<Rightarrow> (vertex_t \<Rightarrow> 's \<Rightarrow> 's) \<Rightarrow> 's \<Rightarrow> 's" where
  "for_each vs rng f s = fold f (filter (\<lambda>v. v \<in> vs) rng) s"

text \<open>Lines 136-148: the children of \<open>u\<close> in the parent forest enter \<open>next_modified\<close>.\<close>

definition mark_children :: "fragment_t \<Rightarrow> 'v app_state \<Rightarrow> vertex_t \<Rightarrow> vertex_t set \<Rightarrow> vertex_t set" where
  "mark_children frag st u nm =
     fold (\<lambda>v nm. if DeltaParentGid st v = Vertex2Gid frag u then insert v nm else nm)
       (GetOutgoingAdjList frag u) nm"

text \<open>Lines 150-155: value and delta of \<open>u\<close> are reset to the identity element.\<close>

definition reset_vertex :: "'v kernel \<Rightarrow> vertex_t \<Rightarrow> 'v app_state \<Rightarrow> 'v app_state" where
  "reset_vertex k u st =
     st\<lparr>values_arr := (values_arr st)(u := GetIdentityElement k),
        deltas_arr := (deltas_arr st)(u := Reset k (deltas_arr st u) (GetIdentityElement k))\<rparr>"

text \<open>Lines 157-162: an empty message for the outer vertex, whose delta is reset.\<close>

definition sync_reset_outer :: "'v kernel \<Rightarrow> vertex_t \<Rightarrow> 'v worker \<Rightarrow> 'v worker" where
  "sync_reset_outer k v w =
     w\<lparr>trace := trace w @ [SyncStateOnOuterVertex v None],
       app := (app w)\<lparr>deltas_arr :=
                (deltas_arr (app w))(v := Reset k (deltas_arr (app w) v) (GetIdentityElement k))\<rparr>\<rparr>"

text \<open>
  One pass of the body of the do-while loop, lines 129-170. \<open>inner_vertices\<close> and
  \<open>outer_vertices\<close> are the ranges read at line 88-89. \<open>Count() > 0\<close> is
  non-emptiness of the set.
\<close>

definition reset_round :: "'v kernel \<Rightarrow> fragment_t \<Rightarrow> 'v round_input \<Rightarrow> 'v reset_state \<Rightarrow> 'v reset_state" where
  "reset_round k frag inp s =
     (let inner_vertices = InnerVertices frag;
          outer_vertices = OuterVertices frag;
          w1 = emit [StartARound] (rw s);
          curr1 = fold (\<lambda>(v, msg) cm. insert v cm) (inbound inp) (curr_modified s);
          next1 = for_each curr1 inner_vertices (mark_children frag (app w1)) (next_modified s);
          w2 = w1\<lparr>app := for_each curr1 inner_vertices (reset_vertex k) (app w1)\<rparr>;
          reset1 = for_each curr1 inner_vertices insert (reset_vertices s);
          w3 = for_each next1 outer_vertices (sync_reset_outer k) w2;
          w4 = emit [FinishARound] w3;
          w5 = (if next1 \<noteq> {} then emit [ForceContinue] w4 else w4)
      in \<lparr>rw = w5, curr_modified = next1, next_modified = {}, reset_vertices = reset1\<rparr>)"

text \<open>
  The do-while loop. Each pass takes what the message manager delivers in that round and
  the verdict of \<open>ToTerminate\<close> from the list of round inputs; the loop has no result
  when the list ends before a verdict of termination.
\<close>

fun reset_loop :: "'v kernel \<Rightarrow> fragment_t \<Rightarrow> 'v round_input list \<Rightarrow> 'v reset_state
                   \<Rightarrow> error + ('v reset_state \<times> 'v round_input list)" where
  "reset_loop k frag [] s = Inl OutOfRounds"
| "reset_loop k frag (inp # env) s =
     (let s1 = reset_round k frag inp s;
          s2 = s1\<lparr>rw := emit [ToTerminate (terminate inp)] (rw s1)\<rparr>
      in if terminate inp then Inr (s2, env) else reset_loop k frag env s2)"

section \<open>deltaCompute: rebuild and kickoff round\<close>

text \<open>
  Lines 188-210: the snapshot of values and deltas over the old inner vertices, the new
  fragment, \<open>app_->Init\<close>, and the copy of the snapshot by vertex handle.
\<close>

definition copy_back :: "(vertex_t \<Rightarrow> 'v) \<Rightarrow> (vertex_t \<Rightarrow> 'v DependencyData) \<Rightarrow> vertex_t
                        \<Rightarrow> 'v app_state \<Rightarrow> 'v app_state" where
  "copy_back values deltas v st =
     st\<lparr>values_arr := (values_arr st)(v := values v),
        deltas_arr := (deltas_arr st)(v := deltas v)\<rparr>"

definition rebuild :: "'v kernel \<Rightarrow> vertex_t list \<Rightarrow> inc_fragment_builder \<Rightarrow> 'v worker \<Rightarrow> 'v worker" where
  "rebuild k inner_vertices b w =
     (let values = values_arr (app w);
          deltas = deltas_arr (app w);
          new_fragment = Build b;
          st = Init k new_fragment
      in \<lparr>app = fold (copy_back values deltas) inner_vertices st,
          fragment = new_fragment,
          trace = trace w @ [CallInit]\<rparr>)"

text \<open>Lines 214-221: \<open>Compute\<close> on an inner vertex whose delta is not the identity.\<close>

definition kickoff_compute :: "'v kernel \<Rightarrow> vertex_t \<Rightarrow> 'v worker \<times> vertex_t set
                              \<Rightarrow> 'v worker \<times> vertex_t set" where
  "kickoff_compute k u = (\<lambda>(w, nm).
     (let val = values_arr (app w) u;
          delta = deltas_arr (app w) u
      in if delta_value delta \<noteq> GetIdentityElement k then
           (let (ds, nm1) = Compute k (fragment w) u val delta (deltas_arr (app w)) nm
            in (w\<lparr>app := (app w)\<lparr>deltas_arr := ds\<rparr>,
                  trace := trace w @ [CallCompute u val delta]\<rparr>, nm1))
         else (w, nm)))"

text \<open>
  Lines 223-230 and 301-309: the delta of an outer vertex is sent unless its value is the
  identity element.
\<close>

definition send_delta :: "'v kernel \<Rightarrow> vertex_t \<Rightarrow> 'v worker \<Rightarrow> 'v worker" where
  "send_delta k v w =
     (let delta_to_send = deltas_arr (app w) v
      in if delta_value delta_to_send \<noteq> GetIdentityElement k
         then emit [SyncStateOnOuterVertex v (Some delta_to_send)] w else w)"

text \<open>
  Lines 212-232. \<open>inner_vertices\<close> is still the range read at line 88; the outer
  range is read from the new fragment (line 202). The final swap leaves the local set in
  \<open>app_->next_modified_\<close>.
\<close>

definition kickoff :: "'v kernel \<Rightarrow> vertex_t list \<Rightarrow> vertex_t set \<Rightarrow> 'v worker \<Rightarrow> 'v worker" where
  "kickoff k inner_vertices nm w =
     (let outer_vertices = OuterVertices (fragment w);
          w1 = emit [StartARound] w;
          (w2, nm1) = fold (kickoff_compute k) inner_vertices (w1, nm);
          w3 = for_each nm1 outer_vertices (send_delta k) w2;
          w4 = emit [FinishARound] w3
      in w4\<lparr>app := (app w4)\<lparr>app_next_modified := nm1\<rparr>\<rparr>)"

text \<open>
  Lines 80-126 of \<open>deltaCompute\<close>: the builder's deleted edges seed \<open>curr_modified\<close>;
  the other two sets start empty.
\<close>

definition seeding :: "config \<Rightarrow> inc_fragment_builder \<Rightarrow> 'v worker \<Rightarrow> error + 'v reset_state" where
  "seeding cfg b w =
     (let w1 = emit (coordinator_log cfg ''Parsing update file'') w
      in case seed (fragment w) (app w) (GetDeletedEdgesGid b) {} of
           Inl e \<Rightarrow> Inl e
         | Inr cm \<Rightarrow>
             Inr \<lparr>rw = emit (coordinator_log cfg ''Resetting'') w1, curr_modified = cm,
                  next_modified = {}, reset_vertices = {}\<rparr>)"

text \<open>
  Lines 173-233 of \<open>deltaCompute\<close>, after the reset loop: the count of reset vertices is
  summed and logged, the fragment is rebuilt and the kickoff round runs.
  \<open>inner_vertices\<close> is the range read at line 88, before the rebuild.
\<close>

definition rebuild_and_kickoff :: "'v kernel \<Rightarrow> config \<Rightarrow> vertex_t list \<Rightarrow> inc_fragment_builder
                                   \<Rightarrow> 'v reset_state \<Rightarrow> 'v worker" where
  "rebuild_and_kickoff k cfg inner_vertices b s =
     (let w2 = emit (CommunicatorSum (card (reset_vertices s))
                     # coordinator_log cfg ''# of reset vertices''
                     @ coordinator_log cfg ''Start a round from all vertices'') (rw s);
          w3 = rebuild k inner_vertices b w2
      in kickoff k inner_vertices (next_modified s) w3)"

text \<open>
  Lines 80-171 of \<open>deltaCompute\<close>: seeding and the reset loop, on the fragment the
  worker holds when \<open>deltaCompute\<close> is entered.
\<close>

definition reset_phase :: "'v kernel \<Rightarrow> config \<Rightarrow> 'v round_input list \<Rightarrow> 'v worker
                           \<Rightarrow> error + ('v reset_state \<times> 'v round_input list)" where
  "reset_phase k cfg env w =
     (case seeding cfg (IncFragmentBuilder cfg (fragment w)) w of
        Inl e \<Rightarrow> Inl e
      | Inr s0 \<Rightarrow> reset_loop k (fragment w) env s0)"

text \<open>\<open>deltaCompute\<close>, lines 80-233.\<close>

definition deltaCompute :: "'v kernel \<Rightarrow> config \<Rightarrow> 'v round_input list \<Rightarrow> 'v worker
                            \<Rightarrow> error + ('v worker \<times> 'v round_input list)" where
  "deltaCompute k cfg env w =
     (let b = IncFragmentBuilder cfg (fragment w);
          inner_vertices = InnerVertices (fragment w)
      in case reset_phase k cfg env w of
           Inl e \<Rightarrow> Inl e
         | Inr (s, env1) \<Rightarrow> Inr (rebuild_and_kickoff k cfg inner_vertices b s, env1))"

section \<open>Query\<close>

text \<open>Lines 261-268: a received delta is accumulated; the vertex is marked if it changed.\<close>

definition accumulate :: "'v kernel \<Rightarrow> vertex_t \<times> 'v DependencyData \<Rightarrow> 'v worker \<Rightarrow> 'v worker" where
  "accumulate k = (\<lambda>(v, msg) w.
     (let (changed, ds) = AccumulateTo k v msg (deltas_arr (app w));
          st = (app w)\<lparr>deltas_arr := ds\<rparr>
      in w\<lparr>app := (if changed then st\<lparr>app_curr_modified := insert v (app_curr_modified st)\<rparr>
                    else st),
           trace := trace w @ [CallAccumulateTo v msg]\<rparr>))"

text \<open>
  Lines 274-282 and 285-295, the same body under both settings of \<open>FLAGS_cilk\<close>:
  \<open>value\<close> and \<open>delta\<close> are references into the arrays, so what
  \<open>CombineValueDelta\<close> leaves in them is stored, and \<open>Compute\<close> sees the delta as
  \<open>CombineValueDelta\<close> left it and the value as it was before.
\<close>

definition traverse :: "'v kernel \<Rightarrow> vertex_t \<Rightarrow> 'v worker \<Rightarrow> 'v worker" where
  "traverse k u w =
     (let val = values_arr (app w) u;
          last_value = val;
          delta = deltas_arr (app w) u;
          (improved, val1, delta1) = CombineValueDelta k val delta;
          st1 = (app w)\<lparr>values_arr := (values_arr (app w))(u := val1),
                        deltas_arr := (deltas_arr (app w))(u := delta1)\<rparr>;
          w1 = w\<lparr>app := st1, trace := trace w @ [CallCombineValueDelta u]\<rparr>
      in if improved then
           (let (ds, nm) = Compute k (fragment w) u last_value delta1 (deltas_arr st1)
                             (app_next_modified st1)
            in w1\<lparr>app := st1\<lparr>deltas_arr := ds, app_next_modified := nm\<rparr>,
                  trace := trace w1 @ [CallCompute u last_value delta1]\<rparr>)
         else w1)"

text \<open>Lines 301-309: the outbound send of one round of the batch loop.\<close>

definition send_outer :: "'v kernel \<Rightarrow> vertex_t list \<Rightarrow> 'v worker \<Rightarrow> 'v worker" where
  "send_outer k outer_vertices w =
     for_each (app_next_modified (app w)) outer_vertices (send_delta k) w"

text \<open>
  The body of the \<open>while (true)\<close> loop from line 253 to line 321, on explicit vertex
  ranges, and with the ranges read from the worker's fragment as lines 254-255 do.
  Timing and the step counter are left out.
\<close>

definition round_body :: "'v kernel \<Rightarrow> config \<Rightarrow> vertex_t list \<Rightarrow> vertex_t list
                          \<Rightarrow> 'v round_input \<Rightarrow> 'v worker \<Rightarrow> 'v worker" where
  "round_body k cfg inner_vertices outer_vertices inp w =
     (let w1 = emit [StartARound] w;
          w2 = w1\<lparr>app := (app w1)\<lparr>app_next_modified := {}\<rparr>\<rparr>;
          w3 = fold (accumulate k) (inbound inp) w2;
          w4 = (if FLAGS_cilk cfg
                then for_each (app_curr_modified (app w3)) inner_vertices (traverse k) w3
                else for_each (app_curr_modified (app w3)) inner_vertices (traverse k) w3);
          w5 = send_outer k outer_vertices w4;
          w6 = (if app_next_modified (app w5) \<noteq> {} then emit [ForceContinue] w5 else w5)
      in emit [FinishARound, ToTerminate (terminate inp)] w6)"

definition batch_round :: "'v kernel \<Rightarrow> config \<Rightarrow> 'v round_input \<Rightarrow> 'v worker \<Rightarrow> 'v worker" where
  "batch_round k cfg inp w =
     round_body k cfg (InnerVertices (fragment w)) (OuterVertices (fragment w)) inp w"

text \<open>Line 348: \<open>app_->next_modified_.Swap(app_->curr_modified_)\<close>.\<close>

definition swap_modified :: "'v worker \<Rightarrow> 'v worker" where
  "swap_modified w =
     w\<lparr>app := (app w)\<lparr>app_curr_modified := app_next_modified (app w),
                       app_next_modified := app_curr_modified (app w)\<rparr>\<rparr>"

lemma reset_loop_shorter:
  "reset_loop k frag env s = Inr (s', env') \<Longrightarrow> length env' < length env"
proof (induction env arbitrary: s)
  case Nil
  then show ?case by simp
next
  case (Cons inp env)
  show ?case
  proof (cases "terminate inp")
    case True
    with Cons.prems show ?thesis by (simp add: Let_def)
  next
    case False
    with Cons.prems have "\<exists>s2. reset_loop k frag env s2 = Inr (s', env')"
      by (auto simp: Let_def)
    then obtain s2 where "reset_loop k frag env s2 = Inr (s', env')" ..
    from Cons.IH [OF this] show ?thesis by simp
  qed
qed

lemma deltaCompute_shorter:
  "deltaCompute k cfg env w = Inr (w', env') \<Longrightarrow> length env' < length env"
  unfolding deltaCompute_def reset_phase_def Let_def
  by (auto split: sum.splits prod.splits dest: reset_loop_shorter)

text \<open>
  The loop of \<open>Query\<close>, lines 252-349, with the flag \<open>batch_stage\<close>. Like the reset
  loop it takes one round input per pass, and has no result when the inputs end first.
\<close>

function query_loop :: "'v kernel \<Rightarrow> config \<Rightarrow> 'v round_input list \<Rightarrow> bool \<Rightarrow> 'v worker
                        \<Rightarrow> error + 'v worker" where
  "query_loop k cfg [] batch_stage w = Inl OutOfRounds"
| "query_loop k cfg (inp # env) batch_stage w =
     (let w1 = batch_round k cfg inp w
      in if terminate inp then
           (if batch_stage then
              (let w2 = emit (coordinator_log cfg ''Batch time'') w1
               in if FLAGS_efile_update cfg \<noteq> [] then
                    (case deltaCompute k cfg env w2 of
                       Inl e \<Rightarrow> Inl e
                     | Inr (w3, env1) \<Rightarrow> query_loop k cfg env1 False (swap_modified w3))
                  else Inr (emit [LogError ''Missing efile_update or efile_updated''] w2))
            else Inr (emit (coordinator_log cfg ''Inc time'') w1))
         else query_loop k cfg env batch_stage (swap_modified w1))"
  by pat_completeness auto
termination
  by (relation "measure (\<lambda>(k, cfg, env, batch_stage, w). length env)")
     (auto dest: deltaCompute_shorter)

text \<open>\<open>Query\<close>, lines 235-351.\<close>

definition query_prologue :: "'v kernel \<Rightarrow> 'v worker \<Rightarrow> 'v worker" where
  "query_prologue k w =
     \<lparr>app = Init k (fragment w), fragment = fragment w,
      trace = trace w @ [MPI_Barrier, CallInit, Start, StartARound, InitChannels, FinishARound]\<rparr>"

definition Query :: "'v kernel \<Rightarrow> config \<Rightarrow> 'v round_input list \<Rightarrow> 'v worker \<Rightarrow> error + 'v worker" where
  "Query k cfg env w =
     (case query_loop k cfg env True (query_prologue k w) of
        Inl e \<Rightarrow> Inl e
      | Inr w1 \<Rightarrow> Inr (emit [MPI_Barrier] w1))"

section \<open>The phases of Query on their own\<close>

text \<open>
  The batch phase alone: the prologue of \<open>Query\<close> and the rounds of the batch loop up to
  the first verdict of termination, with nothing after it.
\<close>

fun batch_loop :: "'v kernel \<Rightarrow> config \<Rightarrow> 'v round_input list \<Rightarrow> 'v worker \<Rightarrow> error + 'v worker" where
  "batch_loop k cfg [] w = Inl OutOfRounds"
| "batch_loop k cfg (inp # env) w =
     (let w1 = batch_round k cfg inp w
      in if terminate inp then Inr w1 else batch_loop k cfg env (swap_modified w1))"

definition batch_phase :: "'v kernel \<Rightarrow> config \<Rightarrow> 'v round_input list \<Rightarrow> 'v worker \<Rightarrow> error + 'v worker" where
  "batch_phase k cfg env w = batch_loop k cfg env (query_prologue k w)"

text \<open>What is logged when the batch phase ends and no update file is configured.\<close>

definition missing_update_report :: "config \<Rightarrow> 'v event list" where
  "missing_update_report cfg =
     coordinator_log cfg ''Batch time'' @ [LogError ''Missing efile_update or efile_updated'']"







text \<open>
  The messages a trace sends, round by round: the \<open>SyncStateOnOuterVertex\<close> calls between
  a \<open>StartARound\<close> and the next \<open>FinishARound\<close>. The second argument holds the
  messages of the round that is open, if one is.
\<close>

fun sent_rounds :: "'v event list \<Rightarrow> (vertex_t \<times> 'v DependencyData option) list option
                    \<Rightarrow> (vertex_t \<times> 'v DependencyData option) list list" where
  "sent_rounds [] cur = []"
| "sent_rounds (StartARound # es) cur = sent_rounds es (Some [])"
| "sent_rounds (FinishARound # es) cur =
     (case cur of None \<Rightarrow> sent_rounds es None | Some ms \<Rightarrow> ms # sent_rounds es None)"
| "sent_rounds (SyncStateOnOuterVertex v p # es) cur =
     sent_rounds es (map_option (\<lambda>ms. ms @ [(v, p)]) cur)"
| "sent_rounds (e # es) cur = sent_rounds es cur"

text \<open>
  Modelled from the spec: the message manager is not part of the worker's file. By
  section 5 of the specification, messages sent in round R are delivered before the
  handler runs in round R+1 and never in round R. So what the workers' handlers receive
  in the round after the first one is what the workers sent in their first round; \<open>route\<close>
  stands for the translation of a message to the receiving fragment.
\<close>

definition second_round_inbound ::
    "(vertex_t \<times> 'v DependencyData option \<Rightarrow> 'm) \<Rightarrow> 'v event list list \<Rightarrow> 'm list" where
  "second_round_inbound route traces =
     concat (map (\<lambda>t. case sent_rounds t None of [] \<Rightarrow> [] | ms # rest \<Rightarrow> map route ms) traces)"

text \<open>The trace of the second worker continues the trace of the first.\<close>

definition extends :: "'v worker \<Rightarrow> 'v worker \<Rightarrow> bool" where
  "extends w w' \<longleftrightarrow> (\<exists>es. trace w' = trace w @ es)"

section \<open>The dependency forest of the reset phase\<close>

text \<open>
  The vertices named by a list of messages, and the vertices that the first pass of a
  reset round marks: the out-neighbours of the inner vertices in the set whose recorded
  parent is that vertex.
\<close>

definition named :: "(vertex_t \<times> 'v DependencyData) list \<Rightarrow> vertex_t set" where
  "named msgs = fst ` set msgs"

definition marked :: "fragment_t \<Rightarrow> 'v app_state \<Rightarrow> vertex_t set \<Rightarrow> vertex_t set" where
  "marked frag st cm =
     {v. \<exists>u \<in> set (InnerVertices frag) \<inter> cm.
           v \<in> set (GetOutgoingAdjList frag u) \<and> DeltaParentGid st v = Vertex2Gid frag u}"

text \<open>
  The vertices that depend on a set of root vertices through the parent gids of a state:
  the inner roots, and every inner out-neighbour of such a vertex whose recorded parent
  is that vertex.
\<close>

inductive_set invalidated :: "fragment_t \<Rightarrow> 'v app_state \<Rightarrow> vertex_t set \<Rightarrow> vertex_t set"
  for frag :: fragment_t and st :: "'v app_state" and roots :: "vertex_t set" where
    root: "v \<in> roots \<Longrightarrow> v \<in> set (InnerVertices frag) \<Longrightarrow> v \<in> invalidated frag st roots"
  | child: "u \<in> invalidated frag st roots \<Longrightarrow> v \<in> set (GetOutgoingAdjList frag u) \<Longrightarrow>
            v \<in> set (InnerVertices frag) \<Longrightarrow> DeltaParentGid st v = Vertex2Gid frag u \<Longrightarrow>
            v \<in> invalidated frag st roots"

text \<open>
  What holds between the rounds of the reset loop, with \<open>st0\<close> the state before the
  loop and \<open>roots\<close> the vertices seeded or named by a message so far.
\<close>

definition reset_inv :: "'v kernel \<Rightarrow> fragment_t \<Rightarrow> 'v app_state \<Rightarrow> vertex_t set \<Rightarrow> 'v reset_state \<Rightarrow> bool" where
  "reset_inv k frag st0 roots s \<longleftrightarrow>
     next_modified s = {} \<and>
     reset_vertices s \<subseteq> set (InnerVertices frag) \<and>
     (\<forall>v \<in> set (InnerVertices frag).
        deltas_arr (app (rw s)) v \<noteq> deltas_arr st0 v \<longrightarrow> v \<in> reset_vertices s \<union> curr_modified s) \<and>
     (\<forall>u \<in> reset_vertices s. \<forall>v \<in> set (GetOutgoingAdjList frag u).
        v \<in> set (InnerVertices frag) \<and> DeltaParentGid st0 v = Vertex2Gid frag u
        \<longrightarrow> v \<in> reset_vertices s \<union> curr_modified s) \<and>
     roots \<inter> set (InnerVertices frag) \<subseteq> reset_vertices s \<union> curr_modified s \<and>
     reset_vertices s \<subseteq> invalidated frag st0 roots \<and>
     curr_modified s \<inter> set (InnerVertices frag) \<subseteq> invalidated frag st0 roots \<and>
     (\<forall>v. values_arr (app (rw s)) v =
            (if v \<in> reset_vertices s then GetIdentityElement k else values_arr st0 v))"

text \<open>
  The round inputs a loop has used, given what it was handed and what it left over; the
  vertices named by the messages of some rounds; the vertices that seeding selects; and
  the roots of a run of the reset phase: the seeded vertices and the named ones.
\<close>

definition consumed :: "'a list \<Rightarrow> 'a list \<Rightarrow> 'a list" where
  "consumed env env' = take (length env - length env') env"

definition named_all :: "'v round_input list \<Rightarrow> vertex_t set" where
  "named_all rounds = (\<Union>r \<in> set rounds. named (inbound r))"

definition seeded :: "fragment_t \<Rightarrow> 'v app_state \<Rightarrow> (vid_t \<times> vid_t) list \<Rightarrow> vertex_t set" where
  "seeded frag st es =
     {v. \<exists>(u_gid, v_gid) \<in> set es.
           u_gid \<in> local_gid_set frag \<and> IsInnerGid frag v_gid \<and>
           Gid2Vertex frag v_gid = Some v \<and> DeltaParentGid st v = u_gid}"

definition reset_roots :: "config \<Rightarrow> 'v round_input list \<Rightarrow> 'v round_input list \<Rightarrow> 'v worker
                           \<Rightarrow> vertex_t set" where
  "reset_roots cfg env env1 w =
     seeded (fragment w) (app w) (GetDeletedEdgesGid (IncFragmentBuilder cfg (fragment w)))
     \<union> named_all (consumed env env1)"

section \<open>An example: breadth-first distance on a chain\<close>

text \<open>
  A fragment with the inner vertices 0, 1, 2 and the outer vertex 3, whose gids are 10 to
  13, and the edges 0 \<rightarrow> 1 \<rightarrow> 2 \<rightarrow> 3.
\<close>

definition chain_fragment :: fragment_t where
  "chain_fragment =
     \<lparr>InnerVertices = [0, 1, 2], OuterVertices = [3],
      Vertex2Gid = (\<lambda>v. v + 10),
      Gid2Vertex = (\<lambda>g. if 10 \<le> g \<and> g \<le> 13 then Some (g - 10) else None),
      IsInnerGid = (\<lambda>g. 10 \<le> g \<and> g \<le> 12),
      GetOutgoingAdjList = (\<lambda>u. if u < 3 then [Suc u] else [])\<rparr>"

text \<open>The same fragment without the edge 1 \<rightarrow> 2.\<close>

definition cut_fragment :: fragment_t where
  "cut_fragment = chain_fragment\<lparr>GetOutgoingAdjList := (\<lambda>u. if u = 0 \<or> u = 2 then [Suc u] else [])\<rparr>"

text \<open>
  A kernel for distances from the vertex with gid 10, every edge of length 1; \<open>Init\<close>
  gives the source, where it is an inner vertex, the delta 0 and marks it. A delta is
  accumulated when it is smaller; \<open>Compute\<close> offers the delta plus one to every
  outgoing neighbour; \<open>Reset\<close> sets the value and forgets the parent.
\<close>

definition no_parent :: vid_t where
  "no_parent = 0"

definition bfs_accumulate :: "vertex_t \<Rightarrow> enat DependencyData \<Rightarrow> (vertex_t \<Rightarrow> enat DependencyData)
                              \<Rightarrow> bool \<times> (vertex_t \<Rightarrow> enat DependencyData)" where
  "bfs_accumulate v msg ds =
     (if delta_value msg < delta_value (ds v) then (True, ds(v := msg)) else (False, ds))"

definition bfs_compute :: "fragment_t \<Rightarrow> vertex_t \<Rightarrow> enat \<Rightarrow> enat DependencyData
                           \<Rightarrow> (vertex_t \<Rightarrow> enat DependencyData) \<Rightarrow> vertex_t set
                           \<Rightarrow> (vertex_t \<Rightarrow> enat DependencyData) \<times> vertex_t set" where
  "bfs_compute frag u val delta ds nm =
     fold (\<lambda>v (ds, nm).
             (case bfs_accumulate v \<lparr>parent_gid = Vertex2Gid frag u,
                                      delta_value = delta_value delta + 1\<rparr> ds of
                (changed, ds1) \<Rightarrow> (ds1, if changed then insert v nm else nm)))
       (GetOutgoingAdjList frag u) (ds, nm)"

definition bfs_init :: "fragment_t \<Rightarrow> enat app_state" where
  "bfs_init frag =
     \<lparr>values_arr = (\<lambda>v. \<infinity>),
      deltas_arr = (\<lambda>v. \<lparr>parent_gid = no_parent,
                           delta_value = (if v \<in> set (InnerVertices frag) \<and> Vertex2Gid frag v = 10
                                          then 0 else \<infinity>)\<rparr>),
      app_curr_modified = {v \<in> set (InnerVertices frag). Vertex2Gid frag v = 10},
      app_next_modified = {}\<rparr>"

definition bfs_kernel :: "enat kernel" where
  "bfs_kernel =
     \<lparr>GetIdentityElement = \<infinity>,
      Init = bfs_init,
      AccumulateTo = bfs_accumulate,
      CombineValueDelta = (\<lambda>val delta. if delta_value delta < val
                                         then (True, delta_value delta, delta)
                                         else (False, val, delta)),
      Compute = bfs_compute,
      Reset = (\<lambda>delta val. \<lparr>parent_gid = no_parent, delta_value = val\<rparr>)\<rparr>"

text \<open>The state the batch phase of this kernel reaches on the chain.\<close>

definition chain_state :: "enat app_state" where
  "chain_state =
     \<lparr>values_arr = (\<lambda>v. if v < 3 then enat v else \<infinity>),
      deltas_arr = (\<lambda>v. if v = 0 then \<lparr>parent_gid = no_parent, delta_value = 0\<rparr>
                          else if v \<le> 3 then \<lparr>parent_gid = v + 9, delta_value = enat v\<rparr>
                          else \<lparr>parent_gid = no_parent, delta_value = \<infinity>\<rparr>),
      app_curr_modified = {3},
      app_next_modified = {}\<rparr>"

definition chain_worker :: "enat worker" where
  "chain_worker = \<lparr>app = chain_state, fragment = chain_fragment, trace = []\<rparr>"

text \<open>An update that deletes the edge 1 \<rightarrow> 2, given by gids.\<close>

definition cut_builder :: inc_fragment_builder where
  "cut_builder = \<lparr>GetDeletedEdgesGid = [(11, 12)], Build = cut_fragment\<rparr>"

definition cut_config :: config where
  "cut_config =
     \<lparr>FLAGS_efile_update = ''update.e'', FLAGS_cilk = False, worker_id = 0,
      kCoordinatorRank = 0, IncFragmentBuilder = (\<lambda>frag. cut_builder)\<rparr>"

text \<open>The chain worker whose mirror of vertex 3 has been reset.\<close>

definition stale_worker :: "enat worker" where
  "stale_worker = chain_worker\<lparr>app := chain_state\<lparr>deltas_arr :=
      (deltas_arr chain_state)(3 := \<lparr>parent_gid = no_parent, delta_value = \<infinity>\<rparr>)\<rparr>\<rparr>"

text \<open>The same run without an update file, a worker before \<open>Query\<close>, and quiet rounds.\<close>

definition no_update_config :: config where
  "no_update_config = cut_config\<lparr>FLAGS_efile_update := []\<rparr>"

definition quiet :: "bool \<Rightarrow> enat round_input" where
  "quiet b = \<lparr>inbound = [], terminate = b\<rparr>"

definition fresh_chain_worker :: "enat worker" where
  "fresh_chain_worker = \<lparr>app = bfs_init chain_fragment, fragment = chain_fragment, trace = []\<rparr>"

text \<open>
  A fragment with the two inner vertices 0 and 1 (gids 10 and 11), no outer vertex and
  the edge 0 \<rightarrow> 1, and the same fragment without the edge.
\<close>

definition pair_fragment :: fragment_t where
  "pair_fragment =
     \<lparr>InnerVertices = [0, 1], OuterVertices = [],
      Vertex2Gid = (\<lambda>v. v + 10),
      Gid2Vertex = (\<lambda>g. if 10 \<le> g \<and> g \<le> 11 then Some (g - 10) else None),
      IsInnerGid = (\<lambda>g. 10 \<le> g \<and> g \<le> 11),
      GetOutgoingAdjList = (\<lambda>u. if u = 0 then [1] else [])\<rparr>"

definition split_fragment :: fragment_t where
  "split_fragment = pair_fragment\<lparr>GetOutgoingAdjList := (\<lambda>u. [])\<rparr>"

text \<open>
  A kernel for the smallest label that reaches a vertex: \<open>Init\<close> gives every inner
  vertex its own gid as delta and marks it; \<open>Compute\<close> offers the delta unchanged to
  every outgoing neighbour. The rest is as in the distance kernel.
\<close>

definition label_compute :: "fragment_t \<Rightarrow> vertex_t \<Rightarrow> enat \<Rightarrow> enat DependencyData
                           \<Rightarrow> (vertex_t \<Rightarrow> enat DependencyData) \<Rightarrow> vertex_t set
                           \<Rightarrow> (vertex_t \<Rightarrow> enat DependencyData) \<times> vertex_t set" where
  "label_compute frag u val delta ds nm =
     fold (\<lambda>v (ds, nm).
             (case bfs_accumulate v \<lparr>parent_gid = Vertex2Gid frag u,
                                      delta_value = delta_value delta\<rparr> ds of
                (changed, ds1) \<Rightarrow> (ds1, if changed then insert v nm else nm)))
       (GetOutgoingAdjList frag u) (ds, nm)"

definition label_init :: "fragment_t \<Rightarrow> enat app_state" where
  "label_init frag =
     \<lparr>values_arr = (\<lambda>v. \<infinity>),
      deltas_arr = (\<lambda>v. \<lparr>parent_gid = no_parent,
                           delta_value = (if v \<in> set (InnerVertices frag)
                                          then enat (Vertex2Gid frag v) else \<infinity>)\<rparr>),
      app_curr_modified = set (InnerVertices frag),
      app_next_modified = {}\<rparr>"

definition label_kernel :: "enat kernel" where
  "label_kernel = bfs_kernel\<lparr>Init := label_init, Compute := label_compute\<rparr>"

text \<open>
  An update that deletes the edge 0 \<rightarrow> 1, and an update that changes nothing.
\<close>

definition split_config :: config where
  "split_config =
     \<lparr>FLAGS_efile_update = ''update.e'', FLAGS_cilk = False, worker_id = 0,
      kCoordinatorRank = 0,
      IncFragmentBuilder = (\<lambda>frag. \<lparr>GetDeletedEdgesGid = [(10, 11)], Build = split_fragment\<rparr>)\<rparr>"

definition empty_update_config :: config where
  "empty_update_config =
     \<lparr>FLAGS_efile_update = ''update.e'', FLAGS_cilk = False, worker_id = 0,
      kCoordinatorRank = 0,
      IncFragmentBuilder = (\<lambda>frag. \<lparr>GetDeletedEdgesGid = [], Build = frag\<rparr>)\<rparr>"

definition fresh_worker :: "'v kernel \<Rightarrow> fragment_t \<Rightarrow> 'v worker" where
  "fresh_worker k frag = \<lparr>app = Init k frag, fragment = frag, trace = []\<rparr>"

text \<open>
  Modelled from the spec: the message manager is not part of the worker's file. By
  section 4.4 of the specification \<open>ToTerminate\<close> is true iff the round saw no message
  and no \<open>ForceContinue\<close> vote. For a worker without peers this can be read off its own
  trace: every verdict in the trace must be the negation of "something was sent or voted
  since the last \<open>StartARound\<close>". The flag \<open>late\<close> says whether a vote cast after
  \<open>FinishARound\<close> still counts.
\<close>

fun verdicts_agree :: "bool \<Rightarrow> 'v event list \<Rightarrow> bool \<Rightarrow> bool \<Rightarrow> bool" where
  "verdicts_agree late [] opened busy = True"
| "verdicts_agree late (StartARound # es) opened busy = verdicts_agree late es True False"
| "verdicts_agree late (FinishARound # es) opened busy = verdicts_agree late es False busy"
| "verdicts_agree late (ForceContinue # es) opened busy =
     verdicts_agree late es opened (busy \<or> opened \<or> late)"
| "verdicts_agree late (SyncStateOnOuterVertex v p # es) opened busy =
     verdicts_agree late es opened True"
| "verdicts_agree late (ToTerminate b # es) opened busy =
     (b = (\<not> busy) \<and> verdicts_agree late es opened busy)"
| "verdicts_agree late (e # es) opened busy = verdicts_agree late es opened busy"

text \<open>
  Two workers. The owner holds the source (gid 10) and a vertex with gid 11 as inner
  vertices 0 and 1 and mirrors the vertex with gid 20; the peer holds the vertex with
  gid 20 as inner vertex 0 and mirrors gids 11 and 10. The edges are 10 \<rightarrow> 11,
  10 \<rightarrow> 20 and 20 \<rightarrow> 11. The update deletes the edge 10 \<rightarrow> 20.
\<close>

definition owner_fragment :: fragment_t where
  "owner_fragment =
     \<lparr>InnerVertices = [0, 1], OuterVertices = [2],
      Vertex2Gid = (\<lambda>v. if v = 2 then 20 else v + 10),
      Gid2Vertex = (\<lambda>g. if g = 10 then Some 0 else if g = 11 then Some 1
                         else if g = 20 then Some 2 else None),
      IsInnerGid = (\<lambda>g. g = 10 \<or> g = 11),
      GetOutgoingAdjList = (\<lambda>u. if u = 0 then [1, 2] else [])\<rparr>"

definition peer_fragment :: fragment_t where
  "peer_fragment =
     \<lparr>InnerVertices = [0], OuterVertices = [1, 2],
      Vertex2Gid = (\<lambda>v. if v = 0 then 20 else if v = 1 then 11 else 10),
      Gid2Vertex = (\<lambda>g. if g = 20 then Some 0 else if g = 11 then Some 1
                         else if g = 10 then Some 2 else None),
      IsInnerGid = (\<lambda>g. g = 20),
      GetOutgoingAdjList = (\<lambda>u. if u = 0 then [1] else [])\<rparr>"

definition unlink_config :: config where
  "unlink_config =
     \<lparr>FLAGS_efile_update = ''update.e'', FLAGS_cilk = False, worker_id = 0,
      kCoordinatorRank = 0,
      IncFragmentBuilder = (\<lambda>frag.
        \<lparr>GetDeletedEdgesGid = [(10, 20)],
         Build = frag\<lparr>GetOutgoingAdjList := (\<lambda>u.
                   filter (\<lambda>v. \<not> (Vertex2Gid frag u = 10 \<and> Vertex2Gid frag v = 20))
                     (GetOutgoingAdjList frag u))\<rparr>\<rparr>)\<rparr>"

text \<open>A round input that delivers deltas, given as vertex, parent gid and value.\<close>

definition received :: "bool \<Rightarrow> (vertex_t \<times> vid_t \<times> enat) list \<Rightarrow> enat round_input" where
  "received b ms =
     \<lparr>inbound = map (\<lambda>(v, g, d). (v, \<lparr>parent_gid = g, delta_value = d\<rparr>)) ms, terminate = b\<rparr>"

text \<open>
  The chain of recorded parents of a vertex reaches the vertex with gid \<open>root_gid\<close>
  within \<open>n\<close> steps without a step along a deleted edge.
\<close>

fun parent_chain_avoids :: "fragment_t \<Rightarrow> 'v app_state \<Rightarrow> (vid_t \<times> vid_t) list \<Rightarrow> vid_t \<Rightarrow> nat
                            \<Rightarrow> vertex_t \<Rightarrow> bool" where
  "parent_chain_avoids frag st del root_gid 0 v = (Vertex2Gid frag v = root_gid)"
| "parent_chain_avoids frag st del root_gid (Suc n) v =
     (Vertex2Gid frag v = root_gid \<or>
      ((DeltaParentGid st v, Vertex2Gid frag v) \<notin> set del \<and>
       (case Gid2Vertex frag (DeltaParentGid st v) of
          None \<Rightarrow> False
        | Some u \<Rightarrow> parent_chain_avoids frag st del root_gid n u)))"

text \<open>
  The batch phase and then the reset phase of both workers, each round with the messages
  the other worker sent in the round before.
\<close>

definition owner_after_batch :: "enat worker" where
  "owner_after_batch =
     projr (batch_phase bfs_kernel unlink_config
              [quiet False, quiet False, received True [(1, 20, 2)]]
              (fresh_worker bfs_kernel owner_fragment))"

definition owner_after_reset :: "enat reset_state" where
  "owner_after_reset =
     fst (projr (reset_phase bfs_kernel unlink_config
                   [quiet False, received True [(1, no_parent, \<infinity>)]] owner_after_batch))"

definition peer_after_batch :: "enat worker" where
  "peer_after_batch =
     projr (batch_phase bfs_kernel unlink_config
              [quiet False, received False [(0, 10, 1)], quiet True]
              (fresh_worker bfs_kernel peer_fragment))"

definition peer_after_reset :: "enat reset_state" where
  "peer_after_reset =
     fst (projr (reset_phase bfs_kernel unlink_config [quiet False, quiet True]
                   peer_after_batch))"





section \<open>Seeding of the reset loop\<close>

lemma seed_member:
  "seed frag st es cm0 = Inr cm \<Longrightarrow>
   v \<in> cm \<longleftrightarrow>
     v \<in> cm0 \<or>
     (\<exists>(u_gid, v_gid) \<in> set es.
        u_gid \<in> local_gid_set frag \<and> IsInnerGid frag v_gid \<and>
        Gid2Vertex frag v_gid = Some v \<and> DeltaParentGid st v = u_gid)"
proof (induction es arbitrary: cm0)
  case Nil
  then show ?case by simp
next
  case (Cons e es)
  obtain u_gid v_gid where e: "e = (u_gid, v_gid)" by (cases e)
  show ?case
  proof (cases "u_gid \<in> local_gid_set frag \<and> IsInnerGid frag v_gid")
    case False
    with Cons.prems e have "seed frag st es cm0 = Inr cm" by auto
    from Cons.IH [OF this] False e show ?thesis by auto
  next
    case True
    with Cons.prems e obtain u v' where
      u: "Gid2Vertex frag u_gid = Some u" and v': "Gid2Vertex frag v_gid = Some v'"
      by (auto split: option.splits)
    let ?cm1 = "if DeltaParentGid st v' = u_gid then insert v' cm0 else cm0"
    from Cons.prems e True u v' have "seed frag st es ?cm1 = Inr cm" by simp
    from Cons.IH [OF this] True e v' show ?thesis by (auto split: if_splits)
  qed
qed

text \<open>
  C4. When seeding returns (no \<open>CHECK\<close> fails), a vertex \<open>v\<close> is in \<open>curr_modified\<close>
  if and only if it is the vertex of the target gid of some deleted edge
  \<open>(u_gid, v_gid)\<close> with \<open>u_gid\<close> in \<open>local_gid_set\<close>, \<open>v_gid\<close> an inner gid and
  \<open>DeltaParentGid(v) = u_gid\<close>. Seeding calls nothing on the message manager: the trace
  grows by the coordinator's two log lines only, and the application state is untouched.
\<close>

theorem seeding_curr_modified:
  assumes "seeding cfg b w = Inr s"
  shows "(v \<in> curr_modified s \<longleftrightarrow>
            (\<exists>(u_gid, v_gid) \<in> set (GetDeletedEdgesGid b).
               u_gid \<in> local_gid_set (fragment w) \<and> IsInnerGid (fragment w) v_gid \<and>
               Gid2Vertex (fragment w) v_gid = Some v \<and> DeltaParentGid (app w) v = u_gid))
         \<and> trace (rw s) = trace w @ coordinator_log cfg ''Parsing update file''
                                   @ coordinator_log cfg ''Resetting''
         \<and> app (rw s) = app w \<and> fragment (rw s) = fragment w
         \<and> next_modified s = {} \<and> reset_vertices s = {}"
proof -
  from assms obtain cm where
    cm: "seed (fragment w) (app w) (GetDeletedEdgesGid b) {} = Inr cm"
    and s: "s = \<lparr>rw = emit (coordinator_log cfg ''Resetting'')
                       (emit (coordinator_log cfg ''Parsing update file'') w),
                curr_modified = cm, next_modified = {}, reset_vertices = {}\<rparr>"
    by (auto simp: seeding_def Let_def split: sum.splits)
  from seed_member [OF cm, of v] s show ?thesis
    by (simp add: emit_def)
qed

lemmas chain_example_defs =
  cut_builder_def cut_config_def chain_worker_def chain_fragment_def chain_state_def
  cut_fragment_def local_gid_set_def Vertices_def DeltaParentGid_def emit_def
  coordinator_log_def no_parent_def

lemma chain_state_reached:
  "(case batch_phase bfs_kernel cut_config
           [quiet False, quiet False, quiet False, quiet True] fresh_chain_worker of
      Inr w \<Rightarrow> (map (values_arr (app w)) [0, 1, 2, 3, 4], map (deltas_arr (app w)) [0, 1, 2, 3, 4],
                app_curr_modified (app w), app_next_modified (app w))
    | Inl e \<Rightarrow> ([], [], {}, {}))
   = (map (values_arr chain_state) [0, 1, 2, 3, 4], map (deltas_arr chain_state) [0, 1, 2, 3, 4],
      app_curr_modified chain_state, app_next_modified chain_state)"
  by code_simp

lemma seeding_chain:
  "seeding cut_config cut_builder chain_worker =
     Inr \<lparr>rw = emit [LogInfo ''Parsing update file'', LogInfo ''Resetting''] chain_worker,
          curr_modified = {2}, next_modified = {}, reset_vertices = {}\<rparr>"
  by (simp add: seeding_def chain_example_defs)

theorem seeding_curr_modified_witness:
  "\<exists>s. seeding cut_config cut_builder chain_worker = Inr s
       \<and> 2 \<in> curr_modified s \<and> 1 \<notin> curr_modified s
       \<and> trace (rw s) = [LogInfo ''Parsing update file'', LogInfo ''Resetting'']"
proof -
  note h = seeding_chain
  have "2 \<in> curr_modified
          \<lparr>rw = emit [LogInfo ''Parsing update file'', LogInfo ''Resetting''] chain_worker,
           curr_modified = {2}, next_modified = {}, reset_vertices = {}\<rparr>"
    using seeding_curr_modified [OF h, of 2] by (simp add: chain_example_defs)
  moreover have "1 \<notin> curr_modified
          \<lparr>rw = emit [LogInfo ''Parsing update file'', LogInfo ''Resetting''] chain_worker,
           curr_modified = {2}, next_modified = {}, reset_vertices = {}\<rparr>"
    using seeding_curr_modified [OF h, of 1] by (simp add: chain_example_defs)
  ultimately show ?thesis
    using h by (simp add: chain_example_defs)
qed

section \<open>Order of the votes in the reset loop\<close>

lemma reset_round_trace_order:
  "curr_modified (reset_round k frag inp s) \<noteq> {} \<Longrightarrow>
   \<exists>es. trace (rw (reset_round k frag inp s)) = es @ [FinishARound, ForceContinue]"
  by (simp add: reset_round_def Let_def emit_def)

lemma round_body_trace_order:
  "\<exists>es. trace (round_body k cfg inner_vertices outer_vertices inp w) =
          es @ [FinishARound, ToTerminate (terminate inp)] \<and>
        (app_next_modified (app (round_body k cfg inner_vertices outer_vertices inp w)) \<noteq> {}
           \<longrightarrow> (\<exists>es1. es = es1 @ [ForceContinue]))"
  by (simp add: round_body_def Let_def emit_def)

text \<open>
  C3. The reset loop does not call \<open>ForceContinue\<close> before \<open>FinishARound\<close>. On the
  chain, with vertex 2 seeded, the first round finds the child 3 of vertex 2, so
  \<open>next_modified\<close> is not empty; the round calls \<open>StartARound\<close>, sends the empty
  message for the outer vertex 3, calls \<open>FinishARound\<close> and only then
  \<open>ForceContinue\<close> (lines 163-167). The batch loop has the other order
  (\<open>round_body_trace_order\<close>).
\<close>

theorem reset_round_chain_trace:
  "trace (rw (reset_round bfs_kernel chain_fragment \<lparr>inbound = [], terminate = False\<rparr>
                \<lparr>rw = chain_worker, curr_modified = {2}, next_modified = {},
                 reset_vertices = {}\<rparr>))
     = [StartARound, SyncStateOnOuterVertex 3 None, FinishARound, ForceContinue]
   \<and> curr_modified (reset_round bfs_kernel chain_fragment \<lparr>inbound = [], terminate = False\<rparr>
                \<lparr>rw = chain_worker, curr_modified = {2}, next_modified = {},
                 reset_vertices = {}\<rparr>) = {3}"
  by (simp add: reset_round_def for_each_def mark_children_def sync_reset_outer_def
        reset_vertex_def bfs_kernel_def chain_example_defs Let_def)

section \<open>Outbound send of the batch loop\<close>

lemma fold_send_delta:
  "fold (send_delta k) vs w =
     w\<lparr>trace := trace w @
         map (\<lambda>v. SyncStateOnOuterVertex v (Some (deltas_arr (app w) v)))
           (filter (\<lambda>v. delta_value (deltas_arr (app w) v) \<noteq> GetIdentityElement k) vs)\<rparr>"
  by (induction vs arbitrary: w) (simp_all add: send_delta_def emit_def Let_def)

text \<open>
  C7. The send step of a batch round appends to the trace exactly one
  \<open>SyncStateOnOuterVertex\<close> call, carrying the vertex's delta, for each outer vertex
  that is in \<open>next_modified\<close> and whose delta value is not the identity element, in the
  order of the outer range, and it changes nothing else. So a delta is enqueued if and
  only if its value differs from the identity element, and no identity-valued payload
  is sent.
\<close>

theorem send_outer_trace:
  "trace (send_outer k outer_vertices w) =
     trace w @ map (\<lambda>v. SyncStateOnOuterVertex v (Some (deltas_arr (app w) v)))
                 (filter (\<lambda>v. v \<in> app_next_modified (app w) \<and>
                               delta_value (deltas_arr (app w) v) \<noteq> GetIdentityElement k)
                    outer_vertices)
   \<and> app (send_outer k outer_vertices w) = app w
   \<and> fragment (send_outer k outer_vertices w) = fragment w"
  by (simp add: send_outer_def for_each_def fold_send_delta)

theorem send_outer_trace_witness:
  "trace (send_outer bfs_kernel [3, 4]
            (chain_worker\<lparr>app := chain_state\<lparr>app_next_modified := {3, 4}\<rparr>\<rparr>))
     = [SyncStateOnOuterVertex 3 (Some \<lparr>parent_gid = 12, delta_value = 3\<rparr>)]"
  using send_outer_trace [of bfs_kernel "[3, 4]"
          "chain_worker\<lparr>app := chain_state\<lparr>app_next_modified := {3, 4}\<rparr>\<rparr>"]
  by (simp add: bfs_kernel_def chain_example_defs numeral_eq_enat)

section \<open>The kickoff round\<close>

lemma kickoff_compute_step:
  assumes "kickoff_compute k u (w, nm) = (w', nm')"
  shows "fragment w' = fragment w \<and> values_arr (app w') = values_arr (app w)
       \<and> app_curr_modified (app w') = app_curr_modified (app w)
       \<and> app_next_modified (app w') = app_next_modified (app w)
       \<and> trace w' = trace w @
            (if delta_value (deltas_arr (app w) u) \<noteq> GetIdentityElement k
             then [CallCompute u (values_arr (app w) u) (deltas_arr (app w) u)] else [])"
  using assms
  by (auto simp: kickoff_compute_def Let_def split: if_splits prod.splits)

lemma kickoff_compute_fold:
  "fold (kickoff_compute k) us (w, nm) = (w', nm') \<Longrightarrow>
   fragment w' = fragment w \<and> values_arr (app w') = values_arr (app w)
   \<and> app_curr_modified (app w') = app_curr_modified (app w)
   \<and> app_next_modified (app w') = app_next_modified (app w)
   \<and> (\<exists>cs. trace w' = trace w @ cs \<and>
         (\<forall>e\<in>set cs. \<exists>u val d. e = CallCompute u val d \<and> u \<in> set us \<and>
                         delta_value d \<noteq> GetIdentityElement k))"
proof (induction us arbitrary: w nm)
  case Nil
  then show ?case by simp
next
  case (Cons u us)
  obtain w1 nm1 where step: "kickoff_compute k u (w, nm) = (w1, nm1)"
    by (cases "kickoff_compute k u (w, nm)")
  with Cons.prems have rest: "fold (kickoff_compute k) us (w1, nm1) = (w', nm')" by simp
  from Cons.IH [OF rest] obtain cs where
    frame: "fragment w' = fragment w1" "values_arr (app w') = values_arr (app w1)"
      "app_curr_modified (app w') = app_curr_modified (app w1)"
      "app_next_modified (app w') = app_next_modified (app w1)"
    and cs: "trace w' = trace w1 @ cs"
      "\<forall>e\<in>set cs. \<exists>u val d. e = CallCompute u val d \<and> u \<in> set us \<and>
                         delta_value d \<noteq> GetIdentityElement k"
    by blast
  note s = kickoff_compute_step [OF step]
  let ?c = "if delta_value (deltas_arr (app w) u) \<noteq> GetIdentityElement k
             then [CallCompute u (values_arr (app w) u) (deltas_arr (app w) u)] else []"
  have "trace w' = trace w @ (?c @ cs)" using s cs(1) by simp
  moreover have "\<forall>e\<in>set (?c @ cs). \<exists>u' val d. e = CallCompute u' val d \<and> u' \<in> set (u # us) \<and>
                         delta_value d \<noteq> GetIdentityElement k"
    using cs(2) by auto
  ultimately show ?case using s frame by metis
qed


text \<open>
  C5. The kickoff round: after \<open>StartARound\<close> the trace holds calls of \<open>Compute\<close> only
  (no \<open>CombineValueDelta\<close>), each on an inner vertex with a delta whose value is not the
  identity element, and there is such a call for every inner vertex whose delta value is
  not the identity element when its turn comes, with the vertex's value and delta as
  arguments. Then the deltas of the outer vertices of the (new) fragment that are in
  \<open>next_modified\<close> and not the identity are sent, the round is finished, and the
  application's \<open>next_modified\<close> set is the set that \<open>Compute\<close> filled.
\<close>

theorem kickoff_round:
  assumes run: "fold (kickoff_compute k) inner_vertices (emit [StartARound] w, nm) = (w2, nm1)"
  shows "\<exists>cs. trace (kickoff k inner_vertices nm w) =
               trace w @ [StartARound] @ cs @
               map (\<lambda>v. SyncStateOnOuterVertex v (Some (deltas_arr (app w2) v)))
                 (filter (\<lambda>v. v \<in> nm1 \<and>
                               delta_value (deltas_arr (app w2) v) \<noteq> GetIdentityElement k)
                    (OuterVertices (fragment w))) @ [FinishARound]
            \<and> (\<forall>e\<in>set cs. \<exists>u val d. e = CallCompute u val d \<and> u \<in> set inner_vertices \<and>
                            delta_value d \<noteq> GetIdentityElement k)
            \<and> (\<forall>xs u ys wu nmu.
                  inner_vertices = xs @ u # ys \<and>
                  fold (kickoff_compute k) xs (emit [StartARound] w, nm) = (wu, nmu) \<and>
                  delta_value (deltas_arr (app wu) u) \<noteq> GetIdentityElement k
                  \<longrightarrow> CallCompute u (values_arr (app w) u) (deltas_arr (app wu) u) \<in> set cs)
            \<and> app_next_modified (app (kickoff k inner_vertices nm w)) = nm1
            \<and> values_arr (app (kickoff k inner_vertices nm w)) = values_arr (app w)
            \<and> deltas_arr (app (kickoff k inner_vertices nm w)) = deltas_arr (app w2)"
proof -
  let ?w1 = "emit [StartARound] w"
  from kickoff_compute_fold [OF run] obtain cs where
    frame: "fragment w2 = fragment ?w1" "values_arr (app w2) = values_arr (app ?w1)"
    and cs: "trace w2 = trace ?w1 @ cs"
      "\<forall>e\<in>set cs. \<exists>u val d. e = CallCompute u val d \<and> u \<in> set inner_vertices \<and>
                         delta_value d \<noteq> GetIdentityElement k"
    by blast
  have tr: "trace (kickoff k inner_vertices nm w) =
               trace w @ [StartARound] @ cs @
               map (\<lambda>v. SyncStateOnOuterVertex v (Some (deltas_arr (app w2) v)))
                 (filter (\<lambda>v. v \<in> nm1 \<and>
                               delta_value (deltas_arr (app w2) v) \<noteq> GetIdentityElement k)
                    (OuterVertices (fragment w))) @ [FinishARound]"
    using run cs(1)
    by (simp add: kickoff_def Let_def for_each_def fold_send_delta emit_def)
  have each: "CallCompute u (values_arr (app w) u) (deltas_arr (app wu) u) \<in> set cs"
    if split: "inner_vertices = xs @ u # ys"
      and pre: "fold (kickoff_compute k) xs (?w1, nm) = (wu, nmu)"
      and ne: "delta_value (deltas_arr (app wu) u) \<noteq> GetIdentityElement k"
    for xs u ys wu nmu
  proof -
    obtain wv nmv where step: "kickoff_compute k u (wu, nmu) = (wv, nmv)"
      by (cases "kickoff_compute k u (wu, nmu)")
    from run split pre step have post: "fold (kickoff_compute k) ys (wv, nmv) = (w2, nm1)"
      by simp
    from kickoff_compute_fold [OF pre] obtain c0 where
      c0: "trace wu = trace ?w1 @ c0" and v0: "values_arr (app wu) = values_arr (app ?w1)"
      by blast
    from kickoff_compute_fold [OF post] obtain c1 where c1: "trace w2 = trace wv @ c1"
      by blast
    from kickoff_compute_step [OF step] ne
    have "trace wv = trace wu @ [CallCompute u (values_arr (app wu) u) (deltas_arr (app wu) u)]"
      by simp
    with c0 c1 cs(1) v0
    have "cs = c0 @ [CallCompute u (values_arr (app w) u) (deltas_arr (app wu) u)] @ c1"
      by (simp add: emit_def)
    then show ?thesis by simp
  qed
  have rest: "app_next_modified (app (kickoff k inner_vertices nm w)) = nm1
            \<and> values_arr (app (kickoff k inner_vertices nm w)) = values_arr (app w)
            \<and> deltas_arr (app (kickoff k inner_vertices nm w)) = deltas_arr (app w2)"
    using run frame(2)
    by (simp add: kickoff_def Let_def for_each_def fold_send_delta emit_def)
  from tr cs(2) each rest show ?thesis by blast
qed


lemmas bfs_defs = bfs_kernel_def bfs_compute_def bfs_accumulate_def bfs_init_def

theorem kickoff_round_witness:
  "trace (kickoff bfs_kernel [0, 1, 2] {} stale_worker) =
     [StartARound,
      CallCompute 0 0 \<lparr>parent_gid = 0, delta_value = 0\<rparr>,
      CallCompute 1 1 \<lparr>parent_gid = 10, delta_value = 1\<rparr>,
      CallCompute 2 2 \<lparr>parent_gid = 11, delta_value = 2\<rparr>,
      SyncStateOnOuterVertex 3 (Some \<lparr>parent_gid = 12, delta_value = 3\<rparr>),
      FinishARound]
   \<and> app_next_modified (app (kickoff bfs_kernel [0, 1, 2] {} stale_worker)) = {3}"
proof -
  let ?r = "fold (kickoff_compute bfs_kernel) [0, 1, 2] (emit [StartARound] stale_worker, {})"
  have h: "?r = (fst ?r, snd ?r)" by simp
  have nm: "snd ?r = {3}"
    by (simp add: kickoff_compute_def stale_worker_def bfs_defs chain_example_defs Let_def
          zero_enat_def one_enat_def numeral_eq_enat)
  have tr: "trace (kickoff bfs_kernel [0, 1, 2] {} stale_worker) =
     [StartARound,
      CallCompute 0 0 \<lparr>parent_gid = 0, delta_value = 0\<rparr>,
      CallCompute 1 1 \<lparr>parent_gid = 10, delta_value = 1\<rparr>,
      CallCompute 2 2 \<lparr>parent_gid = 11, delta_value = 2\<rparr>,
      SyncStateOnOuterVertex 3 (Some \<lparr>parent_gid = 12, delta_value = 3\<rparr>),
      FinishARound]"
    by (simp add: kickoff_def kickoff_compute_def for_each_def send_delta_def stale_worker_def
          bfs_defs chain_example_defs Let_def zero_enat_def one_enat_def numeral_eq_enat)
  from kickoff_round [OF h]
  have "app_next_modified (app (kickoff bfs_kernel [0, 1, 2] {} stale_worker)) = snd ?r"
    by blast
  with nm tr show ?thesis by (simp only: simp_thms)
qed

section \<open>State transfer across the rebuild\<close>

lemma fold_copy_back:
  "fold (copy_back vals dels) vs st =
     st\<lparr>values_arr := (\<lambda>v. if v \<in> set vs then vals v else values_arr st v),
        deltas_arr := (\<lambda>v. if v \<in> set vs then dels v else deltas_arr st v)\<rparr>"
proof (induction vs arbitrary: st)
  case Nil
  then show ?case by simp
next
  case (Cons u us)
  show ?case
    by (simp add: Cons.IH) (auto simp: copy_back_def fun_eq_iff)
qed

text \<open>
  C6. The rebuild copies value and delta of every vertex of the old inner range, by
  vertex handle, into the arrays that \<open>Init\<close> allocated for the new fragment. The delta
  of an outer vertex of the new fragment is what \<open>Init\<close> left there, whatever it was
  before: when \<open>Init\<close> sets the outer deltas to the identity element (the kernel
  contract) and no outer vertex of the new fragment has a handle of the old inner range
  (the builder keeps the inner handles), every outer delta is the identity element after
  the copy.
\<close>

theorem rebuild_carries_inner:
  assumes init: "\<forall>v\<in>set (OuterVertices (Build b)).
                   delta_value (deltas_arr (Init k (Build b)) v) = GetIdentityElement k"
    and stable: "set (OuterVertices (Build b)) \<inter> set inner_vertices = {}"
  shows "(\<forall>v\<in>set inner_vertices.
            values_arr (app (rebuild k inner_vertices b w)) v = values_arr (app w) v \<and>
            deltas_arr (app (rebuild k inner_vertices b w)) v = deltas_arr (app w) v)
       \<and> (\<forall>v\<in>set (OuterVertices (fragment (rebuild k inner_vertices b w))).
            delta_value (deltas_arr (app (rebuild k inner_vertices b w)) v) = GetIdentityElement k)
       \<and> fragment (rebuild k inner_vertices b w) = Build b"
  using init stable
  by (auto simp: rebuild_def Let_def fold_copy_back)

lemma rebuild_outside_inner:
  "v \<notin> set inner_vertices \<Longrightarrow>
   deltas_arr (app (rebuild k inner_vertices b w)) v = deltas_arr (Init k (Build b)) v"
  by (simp add: rebuild_def Let_def fold_copy_back)

theorem rebuild_carries_inner_witness:
  "values_arr (app (rebuild bfs_kernel [0, 1, 2] cut_builder chain_worker)) 2 = 2
   \<and> deltas_arr (app (rebuild bfs_kernel [0, 1, 2] cut_builder chain_worker)) 2
       = \<lparr>parent_gid = 11, delta_value = 2\<rparr>
   \<and> delta_value (deltas_arr (app chain_worker) 3) = 3
   \<and> delta_value (deltas_arr (app (rebuild bfs_kernel [0, 1, 2] cut_builder chain_worker)) 3) = \<infinity>"
proof -
  have init: "\<forall>v\<in>set (OuterVertices (Build cut_builder)).
      delta_value (deltas_arr (Init bfs_kernel (Build cut_builder)) v) = GetIdentityElement bfs_kernel"
    by (simp add: bfs_defs chain_example_defs)
  have stable: "set (OuterVertices (Build cut_builder)) \<inter> set [0, 1, 2] = {}"
    by (simp add: chain_example_defs)
  from rebuild_carries_inner [OF init stable, of chain_worker]
  show ?thesis
    by (simp add: bfs_defs chain_example_defs numeral_eq_enat)
qed

section \<open>Traces grow and the fragment changes only in the rebuild\<close>

lemma extends_refl [simp]: "extends w w"
  by (simp add: extends_def)

lemma extends_trans: "extends w1 w2 \<Longrightarrow> extends w2 w3 \<Longrightarrow> extends w1 w3"
  by (auto simp: extends_def)

lemma extends_emit [simp]: "extends w (emit es w)"
  by (simp add: extends_def emit_def)

lemma extends_app_update [simp]: "extends w (w'\<lparr>app := a\<rparr>) = extends w w'"
  by (simp add: extends_def)

lemma extends_fold:
  assumes "\<And>x w. extends w (f x w)"
  shows "extends w (fold f xs w)"
proof (induction xs arbitrary: w)
  case Nil
  show ?case by simp
next
  case (Cons x xs)
  have "extends w (f x w)" by (rule assms)
  moreover have "extends (f x w) (fold f xs (f x w))" by (rule Cons.IH)
  ultimately show ?case by (auto simp: extends_def)
qed

lemma fragment_fold:
  assumes "\<And>x w. fragment (f x w) = fragment w"
  shows "fragment (fold f xs w) = fragment w"
  by (induction xs arbitrary: w) (simp_all add: assms)

lemma accumulate_extends: "extends w (accumulate k m w)"
  by (cases m) (simp add: accumulate_def extends_def Let_def split: prod.splits)

lemma accumulate_fragment: "fragment (accumulate k m w) = fragment w"
  by (cases m) (simp add: accumulate_def Let_def split: prod.splits)

lemma traverse_extends: "extends w (traverse k u w)"
  by (simp add: traverse_def extends_def Let_def split: prod.splits)

lemma traverse_fragment: "fragment (traverse k u w) = fragment w"
  by (simp add: traverse_def Let_def split: prod.splits)

lemma send_delta_extends: "extends w (send_delta k v w)"
  by (simp add: send_delta_def Let_def)

lemma send_delta_fragment: "fragment (send_delta k v w) = fragment w"
  by (simp add: send_delta_def Let_def emit_def)

lemma round_body_fragment:
  "fragment (round_body k cfg inner_vertices outer_vertices inp w) = fragment w"
  by (simp add: round_body_def Let_def emit_def send_outer_def for_each_def
        fragment_fold [of "send_delta k", OF send_delta_fragment]
        fragment_fold [of "traverse k", OF traverse_fragment]
        fragment_fold [of "accumulate k", OF accumulate_fragment])

lemma round_body_starts:
  "\<exists>es. trace (round_body k cfg inner_vertices outer_vertices inp w) = trace w @ StartARound # es"
proof -
  let ?w2 = "(emit [StartARound] w)\<lparr>app := (app (emit [StartARound] w))\<lparr>app_next_modified := {}\<rparr>\<rparr>"
  let ?w3 = "fold (accumulate k) (inbound inp) ?w2"
  let ?w4 = "for_each (app_curr_modified (app ?w3)) inner_vertices (traverse k) ?w3"
  let ?w5 = "send_outer k outer_vertices ?w4"
  have "extends ?w2 ?w3" by (rule extends_fold) (rule accumulate_extends)
  moreover have "extends ?w3 ?w4"
    unfolding for_each_def by (rule extends_fold) (rule traverse_extends)
  moreover have "extends ?w4 ?w5"
    unfolding send_outer_def for_each_def by (rule extends_fold) (rule send_delta_extends)
  ultimately have "extends ?w2 ?w5" by (auto simp: extends_def)
  then obtain es where "trace ?w5 = trace ?w2 @ es" by (auto simp: extends_def)
  then show ?thesis
    by (simp add: round_body_def Let_def emit_def)
qed


lemma batch_round_extends: "extends w (batch_round k cfg inp w)"
  using round_body_starts [of k cfg _ _ inp w]
  by (auto simp: batch_round_def extends_def)

lemma swap_modified_trace [simp]: "trace (swap_modified w) = trace w"
  by (simp add: swap_modified_def)

lemma sync_reset_outer_extends: "extends w (sync_reset_outer k v w)"
  by (simp add: sync_reset_outer_def extends_def)

lemma sync_reset_outer_fragment: "fragment (sync_reset_outer k v w) = fragment w"
  by (simp add: sync_reset_outer_def)

lemma reset_round_fragment: "fragment (rw (reset_round k frag inp s)) = fragment (rw s)"
  by (simp add: reset_round_def Let_def emit_def for_each_def
        fragment_fold [of "sync_reset_outer k", OF sync_reset_outer_fragment])

lemma reset_round_extends: "extends (rw s) (rw (reset_round k frag inp s))"
proof -
  let ?w2 = "(emit [StartARound] (rw s))\<lparr>app := for_each
      (fold (\<lambda>(v, msg) cm. insert v cm) (inbound inp) (curr_modified s)) (InnerVertices frag)
      (reset_vertex k) (app (emit [StartARound] (rw s)))\<rparr>"
  let ?vs = "filter (\<lambda>v. v \<in> curr_modified (reset_round k frag inp s)) (OuterVertices frag)"
  have "extends ?w2 (fold (sync_reset_outer k) ?vs ?w2)"
    by (rule extends_fold) (rule sync_reset_outer_extends)
  then obtain es where es: "trace (fold (sync_reset_outer k) ?vs ?w2) = trace ?w2 @ es"
    by (auto simp: extends_def)
  have "trace (rw (reset_round k frag inp s)) =
          trace (fold (sync_reset_outer k) ?vs ?w2) @
          (if curr_modified (reset_round k frag inp s) \<noteq> {} then [FinishARound, ForceContinue]
           else [FinishARound])"
    by (simp add: reset_round_def Let_def for_each_def emit_def)
  with es show ?thesis
    by (simp add: extends_def emit_def)
qed

lemma reset_loop_frame:
  "reset_loop k frag env s = Inr (s', env') \<Longrightarrow>
   extends (rw s) (rw s') \<and> fragment (rw s') = fragment (rw s)"
proof (induction env arbitrary: s)
  case Nil
  then show ?case by simp
next
  case (Cons inp env)
  let ?s2 = "(reset_round k frag inp s)\<lparr>rw := emit [ToTerminate (terminate inp)]
                                             (rw (reset_round k frag inp s))\<rparr>"
  have step: "extends (rw s) (rw ?s2) \<and> fragment (rw ?s2) = fragment (rw s)"
    using reset_round_extends [of s k frag inp] reset_round_fragment [of k frag inp s]
    by (auto simp: extends_def emit_def)
  show ?case
  proof (cases "terminate inp")
    case True
    with Cons.prems have "s' = ?s2" by (simp add: Let_def)
    with step show ?thesis by simp
  next
    case False
    with Cons.prems have "reset_loop k frag env ?s2 = Inr (s', env')" by (simp add: Let_def)
    from Cons.IH [OF this] step show ?thesis by (auto simp: extends_def)
  qed
qed

lemma kickoff_frame:
  "extends w (kickoff k inner_vertices nm w) \<and>
   fragment (kickoff k inner_vertices nm w) = fragment w"
proof -
  obtain w2 nm1 where run:
    "fold (kickoff_compute k) inner_vertices (emit [StartARound] w, nm) = (w2, nm1)"
    by (cases "fold (kickoff_compute k) inner_vertices (emit [StartARound] w, nm)")
  from kickoff_compute_fold [OF run] obtain cs where
    "fragment w2 = fragment w" "trace w2 = trace w @ StartARound # cs"
    by (auto simp: emit_def)
  with run show ?thesis
    by (simp add: kickoff_def Let_def for_each_def fold_send_delta emit_def extends_def)
qed

lemma rebuild_and_kickoff_frame:
  "extends (rw s) (rebuild_and_kickoff k cfg inner_vertices b s) \<and>
   fragment (rebuild_and_kickoff k cfg inner_vertices b s) = Build b"
proof -
  let ?w3 = "rebuild k inner_vertices b
               (emit (CommunicatorSum (card (reset_vertices s))
                      # coordinator_log cfg ''# of reset vertices''
                      @ coordinator_log cfg ''Start a round from all vertices'') (rw s))"
  have "extends (rw s) ?w3" "fragment ?w3 = Build b"
    by (simp_all add: rebuild_def Let_def extends_def emit_def)
  with kickoff_frame [of ?w3 k inner_vertices "next_modified s"]
  have "extends (rw s) (kickoff k inner_vertices (next_modified s) ?w3)"
    "fragment (kickoff k inner_vertices (next_modified s) ?w3) = Build b"
    by (auto simp: extends_def)
  then show ?thesis
    by (simp add: rebuild_and_kickoff_def Let_def)
qed

lemma deltaCompute_frame:
  assumes "deltaCompute k cfg env w = Inr (w', env')"
  shows "extends w w' \<and> fragment w' = Build (IncFragmentBuilder cfg (fragment w))"
proof -
  let ?b = "IncFragmentBuilder cfg (fragment w)"
  from assms obtain s0 s where
    s0: "seeding cfg ?b w = Inr s0"
    and loop: "reset_loop k (fragment w) env s0 = Inr (s, env')"
    and w': "w' = rebuild_and_kickoff k cfg (InnerVertices (fragment w)) ?b s"
    by (auto simp: deltaCompute_def reset_phase_def Let_def split: sum.splits)
  from s0 have "extends w (rw s0)"
    by (auto simp: seeding_def Let_def extends_def emit_def split: sum.splits)
  moreover from reset_loop_frame [OF loop] have "extends (rw s0) (rw s)" by simp
  moreover from rebuild_and_kickoff_frame [of s k cfg "InnerVertices (fragment w)" ?b] w'
  have "extends (rw s) w'" "fragment w' = Build ?b" by simp_all
  ultimately show ?thesis by (auto simp: extends_def)
qed

lemma query_loop_extends:
  "query_loop k cfg env batch_stage w = Inr w' \<Longrightarrow> extends w w'"
proof (induction k cfg env batch_stage w rule: query_loop.induct)
  case (1 k cfg batch_stage w)
  then show ?case by simp
next
  case (2 k cfg inp env batch_stage w)
  let ?w1 = "batch_round k cfg inp w"
  let ?w2 = "emit (coordinator_log cfg ''Batch time'') ?w1"
  have w1: "extends w ?w1" by (rule batch_round_extends)
  show ?case
  proof (cases "terminate inp")
    case False
    with "2.prems" have "query_loop k cfg env batch_stage (swap_modified ?w1) = Inr w'"
      by (simp add: Let_def)
    from "2.IH"(2) [OF refl False this] w1 show ?thesis
      by (auto simp: extends_def swap_modified_def)
  next
    case True
    show ?thesis
    proof (cases "batch_stage \<and> FLAGS_efile_update cfg \<noteq> []")
      case False
      with True "2.prems" have "extends ?w1 w'"
        by (auto simp: Let_def extends_def emit_def split: if_splits)
      with w1 show ?thesis by (auto simp: extends_def)
    next
      case stage: True
      with True "2.prems" obtain w3 env1 where
        dc: "deltaCompute k cfg env ?w2 = Inr (w3, env1)"
        and rest: "query_loop k cfg env1 False (swap_modified w3) = Inr w'"
        by (auto simp: Let_def split: sum.splits)
      from stage have bs: batch_stage and fl: "FLAGS_efile_update cfg \<noteq> []" by simp_all
      from "2.IH"(1) [OF refl True bs refl fl _ _ rest] dc
      have "extends (swap_modified w3) w'" by simp
      moreover from deltaCompute_frame [OF dc] have "extends ?w2 w3" by simp
      moreover have "extends ?w1 ?w2" by simp
      ultimately show ?thesis using w1
        by (auto simp: extends_def swap_modified_def emit_def)
    qed
  qed
qed

section \<open>Query without an update file, the rounds after the rebuild, the first round\<close>

lemma query_loop_no_update:
  assumes "FLAGS_efile_update cfg = []"
  shows "query_loop k cfg env True w =
           (case batch_loop k cfg env w of
              Inl e \<Rightarrow> Inl e
            | Inr w1 \<Rightarrow> Inr (emit (missing_update_report cfg) w1))"
  using assms
  by (induction env arbitrary: w) (simp_all add: Let_def missing_update_report_def emit_def)

text \<open>
  C8. With an empty \<open>FLAGS_efile_update\<close>, \<open>Query\<close> returns exactly when the batch phase
  does, with the application state and the fragment the batch phase left; after the
  batch phase the trace holds only the coordinator's batch-time line, the error line
  about the missing update file and the closing barrier. Nothing of \<open>deltaCompute\<close> runs.
  The error line is logged by every worker (line 336 has no rank test), so by the
  coordinator too.
\<close>

theorem query_without_update_file:
  assumes "FLAGS_efile_update cfg = []"
  shows "Query k cfg env w =
           (case batch_phase k cfg env w of
              Inl e \<Rightarrow> Inl e
            | Inr w1 \<Rightarrow> Inr (emit (missing_update_report cfg @ [MPI_Barrier]) w1))"
  using assms
  by (simp add: Query_def batch_phase_def query_loop_no_update emit_def split: sum.splits)


theorem query_without_update_file_witness:
  "FLAGS_efile_update no_update_config = [] \<and>
   (case Query bfs_kernel no_update_config
           [quiet False, quiet False, quiet False, quiet True] fresh_chain_worker of
      Inr w \<Rightarrow> (map (values_arr (app w)) [0, 1, 2], drop 28 (trace w))
    | Inl e \<Rightarrow> ([], []))
   = ([0, 1, 2], [LogInfo ''Batch time'', LogError ''Missing efile_update or efile_updated'',
                  MPI_Barrier])"
proof -
  have h: "FLAGS_efile_update no_update_config = []"
    by (simp add: no_update_config_def)
  have b: "(case (case batch_phase bfs_kernel no_update_config
                    [quiet False, quiet False, quiet False, quiet True] fresh_chain_worker of
                Inl e \<Rightarrow> Inl e
              | Inr w1 \<Rightarrow> Inr (emit (missing_update_report no_update_config @ [MPI_Barrier]) w1)) of
      Inr w \<Rightarrow> (map (values_arr (app w)) [0, 1, 2], drop 28 (trace w))
    | Inl e \<Rightarrow> ([], []))
   = ([0, 1, 2], [LogInfo ''Batch time'', LogError ''Missing efile_update or efile_updated'',
                  MPI_Barrier])"
    by code_simp
  show ?thesis
    unfolding query_without_update_file [OF h] using h b by simp
qed

lemma swap_modified_fragment [simp]: "fragment (swap_modified w) = fragment w"
  by (simp add: swap_modified_def)
















lemma query_loop_first_round:
  assumes "query_loop k cfg (inp # env) batch_stage w = Inr w'"
  shows "extends (batch_round k cfg inp w) w'"
proof -
  let ?w1 = "batch_round k cfg inp w"
  let ?w2 = "emit (coordinator_log cfg ''Batch time'') ?w1"
  show ?thesis
  proof (cases "terminate inp")
    case False
    with assms have "query_loop k cfg env batch_stage (swap_modified ?w1) = Inr w'"
      by (simp add: Let_def)
    from query_loop_extends [OF this] show ?thesis by (simp add: extends_def)
  next
    case True
    show ?thesis
    proof (cases "batch_stage \<and> FLAGS_efile_update cfg \<noteq> []")
      case False
      with True assms show ?thesis
        by (auto simp: Let_def extends_def emit_def split: if_splits)
    next
      case stage: True
      with True assms obtain w3 env1 where
        dc: "deltaCompute k cfg env ?w2 = Inr (w3, env1)"
        and rest: "query_loop k cfg env1 False (swap_modified w3) = Inr w'"
        by (auto simp: Let_def split: sum.splits)
      from query_loop_extends [OF rest] have "extends w3 w'" by (simp add: extends_def)
      moreover from deltaCompute_frame [OF dc] have "extends ?w2 w3" by simp
      ultimately show ?thesis by (auto simp: extends_def emit_def)
    qed
  qed
qed

lemma Query_trace_prefix:
  assumes "Query k cfg env w = Inr w'" and "trace w = []"
  shows "\<exists>es. trace w' = [MPI_Barrier, CallInit, Start, StartARound, InitChannels, FinishARound,
                          StartARound] @ es"
proof -
  from assms(1) obtain w1 where
    loop: "query_loop k cfg env True (query_prologue k w) = Inr w1"
    and w': "w' = emit [MPI_Barrier] w1"
    by (auto simp: Query_def split: sum.splits)
  from loop obtain inp env1 where env: "env = inp # env1"
    by (cases env) simp_all
  from query_loop_first_round [OF loop [unfolded env]]
  obtain es1 where "trace w1 = trace (batch_round k cfg inp (query_prologue k w)) @ es1"
    by (auto simp: extends_def)
  moreover from round_body_starts [of k cfg _ _ inp "query_prologue k w"]
  obtain es2 where "trace (batch_round k cfg inp (query_prologue k w)) =
      trace (query_prologue k w) @ StartARound # es2"
    by (auto simp: batch_round_def)
  ultimately show ?thesis using assms(2) w'
    by (simp add: query_prologue_def emit_def)
qed

text \<open>
  C9. For any workers that run \<open>Query\<close> from an empty trace: each trace starts with the
  barrier, \<open>Init\<close>, \<open>Start\<close> and a round \<open>StartARound\<close>, \<open>InitChannels\<close>,
  \<open>FinishARound\<close> in which nothing is sent, before the \<open>StartARound\<close> of the first
  round of the loop; so the messages delivered to the handlers of that round, those
  sent in the round before it, are none.
\<close>

theorem query_starts_with_empty_round:
  assumes "\<forall>(k, cfg, env, w, w') \<in> set runs. trace w = [] \<and> Query k cfg env w = Inr w'"
  shows "(\<forall>(k, cfg, env, w, w') \<in> set runs.
            \<exists>es. trace w' = [MPI_Barrier, CallInit, Start, StartARound, InitChannels,
                             FinishARound, StartARound] @ es)
       \<and> second_round_inbound route (map (\<lambda>(k, cfg, env, w, w'). trace w') runs) = []"
proof -
  have each: "\<exists>es. trace w' = [MPI_Barrier, CallInit, Start, StartARound, InitChannels,
                               FinishARound, StartARound] @ es"
    if "(k, cfg, env, w, w') \<in> set runs" for k cfg env w w'
    using assms that Query_trace_prefix [of k cfg env w w'] by fastforce
  have "(case sent_rounds (trace w') None of [] \<Rightarrow> [] | ms # rest \<Rightarrow> map route ms) = []"
    if "(k, cfg, env, w, w') \<in> set runs" for k cfg env w w'
    using each [OF that] by auto
  then have "second_round_inbound route (map (\<lambda>(k, cfg, env, w, w'). trace w') runs) = []"
    by (auto simp: second_round_inbound_def)
  with each show ?thesis by blast
qed


theorem query_starts_with_empty_round_witness:
  "\<not> isl (Query bfs_kernel no_update_config
             [quiet False, quiet False, quiet False, quiet True] fresh_chain_worker)
   \<and> trace fresh_chain_worker = []
   \<and> second_round_inbound id
        [trace (projr (Query bfs_kernel no_update_config
                         [quiet False, quiet False, quiet False, quiet True]
                         fresh_chain_worker))] = []"
proof -
  let ?q = "Query bfs_kernel no_update_config
              [quiet False, quiet False, quiet False, quiet True] fresh_chain_worker"
  have ok: "\<not> isl ?q" by code_simp
  have t: "trace fresh_chain_worker = []" by (simp add: fresh_chain_worker_def)
  have h: "\<forall>(k, cfg, env, w, w') \<in> set [(bfs_kernel, no_update_config,
              [quiet False, quiet False, quiet False, quiet True], fresh_chain_worker, projr ?q)].
             trace w = [] \<and> Query k cfg env w = Inr w'"
    using ok t by simp
  from query_starts_with_empty_round [OF h, of id] ok t show ?thesis by simp
qed

section \<open>Incremental run against a run from scratch\<close>

text \<open>
  C1. The label kernel on the pair fragment, with the update that deletes the edge
  0 \<rightarrow> 1: the batch phase gives both vertices the label 10; the reset loop clears
  vertex 1, whose parent is vertex 0; after the rebuild nothing reaches vertex 1 again,
  and \<open>Query\<close> ends with the identity element as its value. \<open>Query\<close> on the updated
  graph with an update that changes nothing, or with no update file, ends with the label
  11 for vertex 1. In all these runs every verdict of \<open>ToTerminate\<close> is the one a message manager without peers
  gives, whether or not it counts late votes.
\<close>

theorem incremental_differs_on_labels:
  "(case Query label_kernel split_config [quiet False, quiet True, quiet True, quiet True]
           (fresh_worker label_kernel pair_fragment) of
      Inr w \<Rightarrow> (map (values_arr (app w)) [0, 1],
                verdicts_agree True (trace w) False False,
                verdicts_agree False (trace w) False False)
    | Inl e \<Rightarrow> ([], False, False)) = ([10, \<infinity>], True, True)
   \<and> (case Query label_kernel empty_update_config [quiet True, quiet True, quiet True]
           (fresh_worker label_kernel split_fragment) of
      Inr w \<Rightarrow> (map (values_arr (app w)) [0, 1],
                verdicts_agree True (trace w) False False,
                verdicts_agree False (trace w) False False)
    | Inl e \<Rightarrow> ([], False, False)) = ([10, 11], True, True)
   \<and> (case Query label_kernel no_update_config [quiet True]
           (fresh_worker label_kernel split_fragment) of
      Inr w \<Rightarrow> (map (values_arr (app w)) [0, 1],
                verdicts_agree True (trace w) False False,
                verdicts_agree False (trace w) False False)
    | Inl e \<Rightarrow> ([], False, False)) = ([10, 11], True, True)"
  by code_simp

section \<open>What the reset phase clears\<close>

lemma fold_insert_named:
  "fold (\<lambda>(v, msg) cm. insert v cm) msgs cm = cm \<union> named msgs"
  by (induction msgs arbitrary: cm) (auto simp: named_def)

lemma mark_children_set:
  "mark_children frag st u nm =
     nm \<union> {v \<in> set (GetOutgoingAdjList frag u). DeltaParentGid st v = Vertex2Gid frag u}"
proof -
  have "fold (\<lambda>v nm. if DeltaParentGid st v = g then insert v nm else nm) vs nm =
          nm \<union> {v \<in> set vs. DeltaParentGid st v = g}" for vs g
    by (induction vs arbitrary: nm) auto
  then show ?thesis by (simp add: mark_children_def)
qed

lemma fold_mark_children:
  "fold (mark_children frag st) us nm =
     nm \<union> {v. \<exists>u \<in> set us. v \<in> set (GetOutgoingAdjList frag u) \<and>
                             DeltaParentGid st v = Vertex2Gid frag u}"
  by (induction us arbitrary: nm) (auto simp: mark_children_set)

lemma for_each_mark_children:
  "for_each cm (InnerVertices frag) (mark_children frag st) nm = nm \<union> marked frag st cm"
  by (auto simp: for_each_def fold_mark_children marked_def)

lemma for_each_insert:
  "for_each cm vs insert R = R \<union> (set vs \<inter> cm)"
proof -
  have "fold insert us R = R \<union> set us" for us
    by (induction us arbitrary: R) auto
  then show ?thesis by (auto simp: for_each_def)
qed

lemma fold_reset_vertex_values:
  "values_arr (fold (reset_vertex k) us st) v =
     (if v \<in> set us then GetIdentityElement k else values_arr st v)"
  by (induction us arbitrary: st) (auto simp: reset_vertex_def)

lemma fold_reset_vertex_deltas:
  "v \<notin> set us \<Longrightarrow> deltas_arr (fold (reset_vertex k) us st) v = deltas_arr st v"
  by (induction us arbitrary: st) (auto simp: reset_vertex_def)

lemma fold_sync_reset_outer_values:
  "values_arr (app (fold (sync_reset_outer k) vs w)) = values_arr (app w)"
  by (induction vs arbitrary: w) (auto simp: sync_reset_outer_def)

lemma fold_sync_reset_outer_deltas:
  "v \<notin> set vs \<Longrightarrow> deltas_arr (app (fold (sync_reset_outer k) vs w)) v = deltas_arr (app w) v"
  by (induction vs arbitrary: w) (auto simp: sync_reset_outer_def)

lemma reset_round_sets:
  "curr_modified (reset_round k frag inp s) =
     next_modified s \<union> marked frag (app (rw s)) (curr_modified s \<union> named (inbound inp))"
  "next_modified (reset_round k frag inp s) = {}"
  "reset_vertices (reset_round k frag inp s) =
     reset_vertices s \<union> (set (InnerVertices frag) \<inter> (curr_modified s \<union> named (inbound inp)))"
  by (simp_all add: reset_round_def Let_def fold_insert_named for_each_mark_children
        for_each_insert emit_def)

lemma reset_round_values:
  "values_arr (app (rw (reset_round k frag inp s))) v =
     (if v \<in> set (InnerVertices frag) \<and> v \<in> curr_modified s \<union> named (inbound inp)
      then GetIdentityElement k else values_arr (app (rw s)) v)"
  by (auto simp: reset_round_def Let_def fold_insert_named for_each_def emit_def
        fold_sync_reset_outer_values fold_reset_vertex_values)

lemma reset_round_deltas:
  assumes "v \<notin> set (InnerVertices frag) \<inter> (curr_modified s \<union> named (inbound inp))"
    and "v \<notin> set (OuterVertices frag) \<inter> curr_modified (reset_round k frag inp s)"
  shows "deltas_arr (app (rw (reset_round k frag inp s))) v = deltas_arr (app (rw s)) v"
proof -
  let ?c1 = "curr_modified s \<union> named (inbound inp)"
  let ?n1 = "curr_modified (reset_round k frag inp s)"
  have n1: "?n1 = for_each ?c1 (InnerVertices frag) (mark_children frag (app (rw s)))
                    (next_modified s)"
    by (simp add: reset_round_sets for_each_mark_children)
  have a: "v \<notin> set (filter (\<lambda>v. v \<in> ?c1) (InnerVertices frag))" using assms(1) by auto
  have b: "v \<notin> set (filter (\<lambda>v. v \<in> ?n1) (OuterVertices frag))" using assms(2) by auto
  have "deltas_arr (app (rw (reset_round k frag inp s))) v =
        deltas_arr (app (fold (sync_reset_outer k) (filter (\<lambda>v. v \<in> ?n1) (OuterVertices frag))
           ((emit [StartARound] (rw s))\<lparr>app := fold (reset_vertex k)
               (filter (\<lambda>v. v \<in> ?c1) (InnerVertices frag)) (app (rw s))\<rparr>))) v"
    unfolding n1
    by (simp add: reset_round_def Let_def fold_insert_named for_each_def emit_def)
  also have "\<dots> = deltas_arr (fold (reset_vertex k)
               (filter (\<lambda>v. v \<in> ?c1) (InnerVertices frag)) (app (rw s))) v"
    by (simp add: fold_sync_reset_outer_deltas [OF b])
  also have "\<dots> = deltas_arr (app (rw s)) v"
    by (rule fold_reset_vertex_deltas [OF a])
  finally show ?thesis .
qed


lemma invalidated_mono:
  assumes "roots \<subseteq> roots'"
  shows "invalidated frag st roots \<subseteq> invalidated frag st roots'"
proof
  fix v assume "v \<in> invalidated frag st roots"
  then show "v \<in> invalidated frag st roots'"
  proof induction
    case (root v)
    with assms show ?case by (auto intro: invalidated.root)
  next
    case (child u v)
    then show ?case by (auto intro: invalidated.child)
  qed
qed

lemma reset_round_inv:
  assumes inv: "reset_inv k frag st0 roots s"
  shows "reset_inv k frag st0 (roots \<union> named (inbound inp)) (reset_round k frag inp s)"
proof -
  let ?inner = "set (InnerVertices frag)"
  let ?M = "named (inbound inp)"
  let ?c1 = "curr_modified s \<union> ?M"
  let ?s' = "reset_round k frag inp s"
  let ?R = "reset_vertices s" and ?C = "curr_modified s"
  let ?R' = "reset_vertices ?s'" and ?C' = "curr_modified ?s'"
  let ?I = "invalidated frag st0 roots" and ?I' = "invalidated frag st0 (roots \<union> ?M)"
  from inv have N: "next_modified s = {}" and Rin: "?R \<subseteq> ?inner"
    and a: "\<And>v. v \<in> ?inner \<Longrightarrow> deltas_arr (app (rw s)) v \<noteq> deltas_arr st0 v \<Longrightarrow> v \<in> ?R \<union> ?C"
    and b: "\<And>u v. u \<in> ?R \<Longrightarrow> v \<in> set (GetOutgoingAdjList frag u) \<Longrightarrow> v \<in> ?inner \<Longrightarrow>
              DeltaParentGid st0 v = Vertex2Gid frag u \<Longrightarrow> v \<in> ?R \<union> ?C"
    and c: "roots \<inter> ?inner \<subseteq> ?R \<union> ?C"
    and d1: "?R \<subseteq> ?I" and d2: "?C \<inter> ?inner \<subseteq> ?I"
    and e: "\<And>v. values_arr (app (rw s)) v =
                  (if v \<in> ?R then GetIdentityElement k else values_arr st0 v)"
    by (auto simp: reset_inv_def)
  have R': "?R' = ?R \<union> (?inner \<inter> ?c1)" by (simp add: reset_round_sets)
  have C': "?C' = marked frag (app (rw s)) ?c1" by (simp add: reset_round_sets N)
  have mono: "?I \<subseteq> ?I'" by (rule invalidated_mono) simp
  have old: "(?R \<union> ?C) \<inter> ?inner \<subseteq> ?R'" using R' by auto
  have g1: "next_modified ?s' = {}" by (simp add: reset_round_sets)
  have g2: "?R' \<subseteq> ?inner" using R' Rin by auto
  have g3: "v \<in> ?R' \<union> ?C'"
    if v: "v \<in> ?inner" and ne: "deltas_arr (app (rw ?s')) v \<noteq> deltas_arr st0 v" for v
  proof (cases "v \<in> ?inner \<inter> ?c1 \<or> v \<in> set (OuterVertices frag) \<inter> ?C'")
    case True
    then show ?thesis using R' by auto
  next
    case False
    then have "deltas_arr (app (rw ?s')) v = deltas_arr (app (rw s)) v"
      by (intro reset_round_deltas) auto
    with ne a [OF v] have "v \<in> ?R \<union> ?C" by simp
    with v old show ?thesis by auto
  qed
  have g6: "?R' \<subseteq> ?I'"
  proof
    fix v assume "v \<in> ?R'"
    with R' consider "v \<in> ?R" | "v \<in> ?inner" "v \<in> ?C" | "v \<in> ?inner" "v \<in> ?M" by auto
    then show "v \<in> ?I'"
    proof cases
      case 1 with d1 mono show ?thesis by auto
    next
      case 2 with d2 mono show ?thesis by auto
    next
      case 3 then show ?thesis by (auto intro: invalidated.root)
    qed
  qed
  have g4: "v \<in> ?R' \<union> ?C'"
    if u: "u \<in> ?R'" and vu: "v \<in> set (GetOutgoingAdjList frag u)" and v: "v \<in> ?inner"
      and p: "DeltaParentGid st0 v = Vertex2Gid frag u" for u v
  proof (cases "u \<in> ?R")
    case True
    from b [OF True vu v p] v old show ?thesis by auto
  next
    case False
    with u R' have u1: "u \<in> ?inner \<inter> ?c1" by auto
    show ?thesis
    proof (cases "deltas_arr (app (rw s)) v = deltas_arr st0 v")
      case True
      with p have "DeltaParentGid (app (rw s)) v = Vertex2Gid frag u"
        by (simp add: DeltaParentGid_def)
      with u1 vu have "v \<in> ?C'" unfolding C' marked_def by blast
      then show ?thesis by simp
    next
      case False
      from a [OF v False] v old show ?thesis by auto
    qed
  qed
  have g5: "(roots \<union> ?M) \<inter> ?inner \<subseteq> ?R' \<union> ?C'"
    using c old R' by auto
  have g7: "?C' \<inter> ?inner \<subseteq> ?I'"
  proof
    fix v assume "v \<in> ?C' \<inter> ?inner"
    then have v: "v \<in> ?inner" and "v \<in> marked frag (app (rw s)) ?c1" using C' by auto
    then obtain u where u1: "u \<in> ?inner \<inter> ?c1" and vu: "v \<in> set (GetOutgoingAdjList frag u)"
      and p: "DeltaParentGid (app (rw s)) v = Vertex2Gid frag u"
      unfolding marked_def by blast
    show "v \<in> ?I'"
    proof (cases "deltas_arr (app (rw s)) v = deltas_arr st0 v")
      case True
      with p have p0: "DeltaParentGid st0 v = Vertex2Gid frag u"
        by (simp add: DeltaParentGid_def)
      from u1 R' have "u \<in> ?R'" by auto
      with g6 have "u \<in> ?I'" by auto
      from invalidated.child [OF this vu v p0] show ?thesis .
    next
      case False
      from a [OF v False] v d1 d2 mono show ?thesis by auto
    qed
  qed
  have g8: "values_arr (app (rw ?s')) v =
              (if v \<in> ?R' then GetIdentityElement k else values_arr st0 v)" for v
    using e [of v] R' by (auto simp: reset_round_values)
  show ?thesis
    unfolding reset_inv_def using g1 g2 g3 g4 g5 g6 g7 g8 by blast
qed


lemma reset_inv_emit [simp]:
  "reset_inv k frag st0 roots (s\<lparr>rw := emit es (rw s)\<rparr>) = reset_inv k frag st0 roots s"
  by (simp add: reset_inv_def emit_def)

lemma consumed_here [simp]: "consumed (inp # env) env = [inp]"
  by (simp add: consumed_def)

lemma consumed_later:
  "length env' < length env \<Longrightarrow> consumed (inp # env) env' = inp # consumed env env'"
  by (simp add: consumed_def Suc_diff_le)

lemma reset_loop_inv:
  assumes "reset_loop k frag env s = Inr (s', env')" and "reset_inv k frag st0 roots s"
  shows "reset_inv k frag st0 (roots \<union> named_all (consumed env env')) s'"
  using assms
proof (induction env arbitrary: s roots)
  case Nil
  then show ?case by simp
next
  case (Cons inp env)
  let ?s2 = "(reset_round k frag inp s)\<lparr>rw := emit [ToTerminate (terminate inp)]
                                             (rw (reset_round k frag inp s))\<rparr>"
  have step: "reset_inv k frag st0 (roots \<union> named (inbound inp)) ?s2"
    using reset_round_inv [OF Cons.prems(2)] by simp
  show ?case
  proof (cases "terminate inp")
    case True
    with Cons.prems(1) have "s' = ?s2" "env' = env" by (simp_all add: Let_def)
    with step show ?thesis by (simp add: named_all_def)
  next
    case False
    with Cons.prems(1) have loop: "reset_loop k frag env ?s2 = Inr (s', env')"
      by (simp add: Let_def)
    from reset_loop_shorter [OF loop] have "consumed (inp # env) env' = inp # consumed env env'"
      by (rule consumed_later)
    moreover from Cons.IH [OF loop step]
    have "reset_inv k frag st0 (roots \<union> named (inbound inp) \<union> named_all (consumed env env')) s'" .
    ultimately show ?thesis by (simp add: named_all_def Un_assoc)
  qed
qed

lemma reset_loop_reset_vertices_mono:
  "reset_loop k frag env s = Inr (s', env') \<Longrightarrow>
   reset_vertices s \<union> (set (InnerVertices frag) \<inter> curr_modified s) \<subseteq> reset_vertices s'"
proof (induction env arbitrary: s)
  case Nil
  then show ?case by simp
next
  case (Cons inp env)
  let ?s2 = "(reset_round k frag inp s)\<lparr>rw := emit [ToTerminate (terminate inp)]
                                             (rw (reset_round k frag inp s))\<rparr>"
  have step: "reset_vertices s \<union> (set (InnerVertices frag) \<inter> curr_modified s)
                \<subseteq> reset_vertices ?s2"
    by (auto simp: reset_round_sets)
  show ?case
  proof (cases "terminate inp")
    case True
    with Cons.prems have "s' = ?s2" by (simp add: Let_def)
    with step show ?thesis by simp
  next
    case False
    with Cons.prems have "reset_loop k frag env ?s2 = Inr (s', env')" by (simp add: Let_def)
    from Cons.IH [OF this] step show ?thesis by blast
  qed
qed

lemma seeding_seeded:
  assumes "seeding cfg b w = Inr s0"
  shows "curr_modified s0 = seeded (fragment w) (app w) (GetDeletedEdgesGid b)"
    and "next_modified s0 = {}" and "reset_vertices s0 = {}" and "app (rw s0) = app w"
proof -
  from assms obtain cm where
    cm: "seed (fragment w) (app w) (GetDeletedEdgesGid b) {} = Inr cm"
    and s0: "s0 = \<lparr>rw = emit (coordinator_log cfg ''Resetting'')
                       (emit (coordinator_log cfg ''Parsing update file'') w),
                curr_modified = cm, next_modified = {}, reset_vertices = {}\<rparr>"
    by (auto simp: seeding_def Let_def split: sum.splits)
  from seed_member [OF cm] have "cm = seeded (fragment w) (app w) (GetDeletedEdgesGid b)"
    by (auto simp: seeded_def)
  with s0 show "curr_modified s0 = seeded (fragment w) (app w) (GetDeletedEdgesGid b)"
    and "next_modified s0 = {}" and "reset_vertices s0 = {}" and "app (rw s0) = app w"
    by (simp_all add: emit_def)
qed

lemma reset_inv_closed:
  assumes "reset_inv k frag st0 roots s" and "curr_modified s = {}"
  shows "invalidated frag st0 roots \<subseteq> reset_vertices s"
proof
  fix v assume "v \<in> invalidated frag st0 roots"
  then show "v \<in> reset_vertices s"
  proof induction
    case (root v)
    with assms show ?case by (auto simp: reset_inv_def)
  next
    case (child u v)
    with assms show ?case unfolding reset_inv_def by blast
  qed
qed

text \<open>
  C2, as the code has it. When the reset phase returns: every cleared vertex is an inner
  vertex that depends, through recorded parents along outgoing edges between inner
  vertices, on a vertex that was seeded by a deleted edge or named by an inbound empty
  message; the value of a cleared vertex is the identity element and every other value is
  unchanged; every seeded inner vertex is cleared; and when the loop ends with an empty
  frontier on this worker, the cleared vertices are exactly the dependent ones.
\<close>

theorem reset_phase_clears:
  assumes "reset_phase k cfg env w = Inr (s, env1)"
  shows "reset_vertices s \<subseteq> invalidated (fragment w) (app w) (reset_roots cfg env env1 w)
       \<and> (\<forall>v. values_arr (app (rw s)) v =
               (if v \<in> reset_vertices s then GetIdentityElement k else values_arr (app w) v))
       \<and> seeded (fragment w) (app w) (GetDeletedEdgesGid (IncFragmentBuilder cfg (fragment w)))
           \<inter> set (InnerVertices (fragment w)) \<subseteq> reset_vertices s
       \<and> (curr_modified s = {} \<longrightarrow>
            reset_vertices s = invalidated (fragment w) (app w) (reset_roots cfg env env1 w))"
proof -
  let ?b = "IncFragmentBuilder cfg (fragment w)"
  let ?seeds = "seeded (fragment w) (app w) (GetDeletedEdgesGid ?b)"
  from assms obtain s0 where
    s0: "seeding cfg ?b w = Inr s0" and loop: "reset_loop k (fragment w) env s0 = Inr (s, env1)"
    by (auto simp: reset_phase_def split: sum.splits)
  note sd = seeding_seeded [OF s0]
  have "reset_inv k (fragment w) (app w) ?seeds s0"
    unfolding reset_inv_def using sd by (auto intro: invalidated.root)
  from reset_loop_inv [OF loop this]
  have inv: "reset_inv k (fragment w) (app w) (reset_roots cfg env env1 w) s"
    by (simp add: reset_roots_def)
  then have sound: "reset_vertices s \<subseteq> invalidated (fragment w) (app w) (reset_roots cfg env env1 w)"
    and vals: "\<forall>v. values_arr (app (rw s)) v =
               (if v \<in> reset_vertices s then GetIdentityElement k else values_arr (app w) v)"
    by (simp_all add: reset_inv_def)
  from reset_loop_reset_vertices_mono [OF loop] sd(1)
  have seeds: "?seeds \<inter> set (InnerVertices (fragment w)) \<subseteq> reset_vertices s" by auto
  from reset_inv_closed [OF inv] sound
  have "curr_modified s = {} \<longrightarrow>
          reset_vertices s = invalidated (fragment w) (app w) (reset_roots cfg env env1 w)"
    by auto
  with sound vals seeds show ?thesis by blast
qed

text \<open>
  C2, as stated, fails. After the batch phase the owner's vertex 1 has the value 1 and
  the source as its parent, so its chain of parents reaches the root without a deleted
  edge. The peer, whose vertex with gid 20 loses its parent edge, had offered vertex 1
  the delta 2 and recorded itself as parent in its mirror; in the reset loop it sends the
  empty message for the mirror, and the owner clears vertex 1 on receiving it.
\<close>

theorem reset_clears_vertex_with_valid_chain:
  "sent_rounds (trace owner_after_batch) None
     = [[], [(2, Some \<lparr>parent_gid = 10, delta_value = 1\<rparr>)], [], []]
   \<and> sent_rounds (trace peer_after_batch) None
     = [[], [], [(1, Some \<lparr>parent_gid = 20, delta_value = 2\<rparr>)], []]
   \<and> Vertex2Gid owner_fragment 2 = Vertex2Gid peer_fragment 0
   \<and> Vertex2Gid peer_fragment 1 = Vertex2Gid owner_fragment 1
   \<and> drop 4 (sent_rounds (trace (rw peer_after_reset)) None) = [[(1, None)], []]
   \<and> drop 4 (sent_rounds (trace (rw owner_after_reset)) None) = [[], []]
   \<and> 1 \<in> set (InnerVertices owner_fragment)
   \<and> values_arr (app owner_after_batch) 1 = 1
   \<and> parent_chain_avoids owner_fragment (app owner_after_batch) [(10, 20)] 10 1 1
   \<and> 1 \<in> reset_vertices owner_after_reset
   \<and> values_arr (app (rw owner_after_reset)) 1 = \<infinity>"
  by code_simp


lemma batch_loop_fragment:
  "batch_loop k cfg env w = Inr w' \<Longrightarrow> fragment w' = fragment w"
proof (induction env arbitrary: w)
  case Nil
  then show ?case by simp
next
  case (Cons inp env)
  have f: "fragment (batch_round k cfg inp w) = fragment w"
    by (simp add: batch_round_def round_body_fragment)
  show ?case
  proof (cases "terminate inp")
    case True
    with Cons.prems f show ?thesis by (simp add: Let_def)
  next
    case False
    with Cons.prems have "batch_loop k cfg env (swap_modified (batch_round k cfg inp w)) = Inr w'"
      by (simp add: Let_def)
    from Cons.IH [OF this] f show ?thesis by simp
  qed
qed

lemma batch_phase_fragment:
  "batch_phase k cfg env w = Inr w' \<Longrightarrow> fragment w' = fragment w"
  by (auto simp: batch_phase_def query_prologue_def dest: batch_loop_fragment)

theorem reset_phase_clears_witness:
  "\<not> isl (reset_phase bfs_kernel unlink_config
             [quiet False, received True [(1, no_parent, \<infinity>)]] owner_after_batch)
   \<and> reset_vertices owner_after_reset = {1}
   \<and> invalidated owner_fragment (app owner_after_batch)
         (reset_roots unlink_config [quiet False, received True [(1, no_parent, \<infinity>)]] []
            owner_after_batch) = {1}
   \<and> values_arr (app (rw owner_after_reset)) 0 = values_arr (app owner_after_batch) 0
   \<and> values_arr (app (rw owner_after_reset)) 1 = GetIdentityElement bfs_kernel"
proof -
  let ?env = "[quiet False, received True [(1, no_parent, \<infinity>)]]"
  let ?r = "reset_phase bfs_kernel unlink_config ?env owner_after_batch"
  have ok: "\<not> isl ?r" by code_simp
  have rest: "snd (projr ?r) = []" by code_simp
  have "\<not> isl (batch_phase bfs_kernel unlink_config
                  [quiet False, quiet False, received True [(1, 20, 2)]]
                  (fresh_worker bfs_kernel owner_fragment))"
    by code_simp
  then have "batch_phase bfs_kernel unlink_config
                  [quiet False, quiet False, received True [(1, 20, 2)]]
                  (fresh_worker bfs_kernel owner_fragment) = Inr owner_after_batch"
    unfolding owner_after_batch_def by simp
  from batch_phase_fragment [OF this]
  have frag: "fragment owner_after_batch = owner_fragment"
    by (simp add: fresh_worker_def)
  have R: "reset_vertices owner_after_reset = {1}" by code_simp
  have C: "curr_modified owner_after_reset = {}" by code_simp
  from ok rest have run: "?r = Inr (owner_after_reset, [])"
    unfolding owner_after_reset_def by (cases ?r) auto
  from reset_phase_clears [OF run] R C frag show ?thesis
    using ok by auto
qed

end
